theory Spec2Isabelle
  imports Complex_Main "HOL-Library.Multiset"
begin

section \<open>Box grouping: \<open>merge_axle_tree.py\<close>\<close>

text \<open>
  A bounding box is the Python dict with the keys \<open>xmin\<close>, \<open>ymin\<close>, \<open>xmax\<close>, \<open>ymax\<close>.
  The coordinates are Python floats; they are modelled as real numbers, so that
  \<open>+\<close>, \<open>\<le>\<close>, \<open>min\<close> and \<open>max\<close> are the exact operations (no rounding, no NaN).
\<close>

record box =
  xmin :: real
  ymin :: real
  xmax :: real
  ymax :: real

text \<open>The value stored per image: \<open>{'grouped_axles': [...], 'single_axle': [...]}\<close>.\<close>

record merged_image =
  grouped_axles :: "box list"
  single_axle :: "box list"

text \<open>
  Python's \<open>min\<close> and \<open>max\<close> over a non-empty sequence: they keep the first element
  and replace it by a later one that is strictly smaller (greater). On the empty
  sequence Python raises \<open>ValueError\<close>; the only calls, lines 116-119, are guarded
  by \<open>len(group) > 1\<close>, and no value is stated for \<open>[]\<close>.
\<close>

fun py_min :: "real list \<Rightarrow> real" where
  "py_min (x # xs) = fold (\<lambda>y m. if y < m then y else m) xs x"

fun py_max :: "real list \<Rightarrow> real" where
  "py_max (x # xs) = fold (\<lambda>y m. if y > m then y else m) xs x"

text \<open>The merged box appended at lines 115-120.\<close>

definition envelope :: "box list \<Rightarrow> box" where
  "envelope grp =
     \<lparr>xmin = py_min (map xmin grp),
      ymin = py_min (map ymin grp),
      xmax = py_max (map xmax grp),
      ymax = py_max (map ymax grp)\<rparr>"

text \<open>
  The inner loop \<open>for j in range(i + 1, len(single_axle_boxes))\<close>, lines 101-110.
  The state is \<open>(group, remaining_single_axle, current_xmax)\<close>.
\<close>

fun scan_group ::
  "real \<Rightarrow> box list \<Rightarrow> nat list \<Rightarrow> box list \<times> nat set \<times> real \<Rightarrow> box list \<times> nat set \<times> real"
where
  "scan_group thr bs [] st = st"
| "scan_group thr bs (j # js) (grp, remaining, current_xmax) =
     (if j \<notin> remaining then scan_group thr bs js (grp, remaining, current_xmax)
      else if xmin (bs ! j) \<le> current_xmax + thr
        then scan_group thr bs js
               (grp @ [bs ! j], remaining - {j}, max current_xmax (xmax (bs ! j)))
        else scan_group thr bs js (grp, remaining, current_xmax))"

text \<open>
  The outer loop \<open>for i, box1 in enumerate(single_axle_boxes)\<close>, lines 94-120.
  The state is \<open>(merged_boxes, remaining_single_axle)\<close>.
\<close>

fun merge_loop ::
  "real \<Rightarrow> box list \<Rightarrow> nat list \<Rightarrow> box list \<times> nat set \<Rightarrow> box list \<times> nat set"
where
  "merge_loop thr bs [] st = st"
| "merge_loop thr bs (i # is) (merged_boxes, remaining) =
     (if i \<notin> remaining then merge_loop thr bs is (merged_boxes, remaining)
      else
        (case scan_group thr bs [Suc i ..< length bs] ([bs ! i], remaining, xmax (bs ! i)) of
           (grp, remaining', current_xmax) \<Rightarrow>
             if length grp > 1
             then merge_loop thr bs is (merged_boxes @ [envelope grp], remaining' - {i})
             else merge_loop thr bs is (merged_boxes, remaining')))"

text \<open>
  The body of the loop over the images, lines 88-126. Python's \<open>sorted\<close> is stable,
  as \<open>sort_key\<close> is. The final comprehension iterates over a set of small
  non-negative integers, which CPython enumerates in ascending order.
\<close>

definition merge_image :: "real \<Rightarrow> box list \<Rightarrow> merged_image" where
  "merge_image thr single_axle_boxes =
     (let remaining0 = set [0 ..< length single_axle_boxes];
          bs = sort_key xmin single_axle_boxes
      in case merge_loop thr bs [0 ..< length bs] ([], remaining0) of
           (merged_boxes, remaining) \<Rightarrow>
             \<lparr>grouped_axles = merged_boxes,
              single_axle = map (\<lambda>i. bs ! i) (sorted_list_of_set remaining)\<rparr>)"

text \<open>
  \<open>merge_boxes\<close>: the input dict is an association list of image id and boxes
  (insertion order, as Python keeps it); every image is processed on its own.
\<close>

definition merge_boxes :: "(string \<times> box list) list \<Rightarrow> real \<Rightarrow> (string \<times> merged_image) list" where
  "merge_boxes single_axle_boxes_by_image overlap_threshold =
     map (\<lambda>(image_id, single_axle_boxes). (image_id, merge_image overlap_threshold single_axle_boxes))
       single_axle_boxes_by_image"

subsection \<open>The groups behind the merged boxes\<close>

text \<open>
  \<open>merge_boxes\<close> returns the envelope of each group and not the group. To state
  which boxes a merged box stands for, \<open>merge_groups\<close> is the loop \<open>merge_loop\<close>
  with the one difference that it appends the group itself where \<open>merge_loop\<close>
  appends \<open>envelope group\<close>.
\<close>

fun merge_groups ::
  "real \<Rightarrow> box list \<Rightarrow> nat list \<Rightarrow> box list list \<times> nat set \<Rightarrow> box list list \<times> nat set"
where
  "merge_groups thr bs [] st = st"
| "merge_groups thr bs (i # is) (groups, remaining) =
     (if i \<notin> remaining then merge_groups thr bs is (groups, remaining)
      else
        (case scan_group thr bs [Suc i ..< length bs] ([bs ! i], remaining, xmax (bs ! i)) of
           (grp, remaining', current_xmax) \<Rightarrow>
             if length grp > 1
             then merge_groups thr bs is (groups @ [grp], remaining' - {i})
             else merge_groups thr bs is (groups, remaining')))"

definition groups_of_image :: "real \<Rightarrow> box list \<Rightarrow> box list list" where
  "groups_of_image thr single_axle_boxes =
     (let remaining0 = set [0 ..< length single_axle_boxes];
          bs = sort_key xmin single_axle_boxes
      in fst (merge_groups thr bs [0 ..< length bs] ([], remaining0)))"

subsection \<open>The sweep as the specification words it\<close>

text \<open>
  Steps 2 to 6 of the specification, on the sorted list of boxes and without
  indices. \<open>spec_absorb\<close> scans the boxes that are left: a box joins the group when
  its \<open>xmin\<close> is at most the largest \<open>xmax\<close> of the boxes absorbed so far plus the
  threshold; the others are handed back in their order. \<open>spec_sweep\<close> seeds a group
  with the first box that is left, emits the group when it has at least two
  boxes, reports the seed as ungrouped otherwise, and goes on with the boxes
  handed back.
\<close>

fun spec_absorb :: "real \<Rightarrow> box list \<Rightarrow> box list \<Rightarrow> box list \<times> box list" where
  "spec_absorb thr grp [] = (grp, [])"
| "spec_absorb thr grp (b # bs) =
     (if xmin b \<le> Max (set (map xmax grp)) + thr
      then spec_absorb thr (grp @ [b]) bs
      else (case spec_absorb thr grp bs of (grp', left) \<Rightarrow> (grp', b # left)))"

lemma spec_absorb_length:
  "spec_absorb thr grp bs = (grp', left) \<Longrightarrow> length left \<le> length bs"
proof (induction bs arbitrary: grp grp' left)
  case Nil
  then show ?case by simp
next
  case (Cons b bs)
  show ?case
  proof (cases "xmin b \<le> Max (set (map xmax grp)) + thr")
    case True
    with Cons.prems have "spec_absorb thr (grp @ [b]) bs = (grp', left)" by simp
    from Cons.IH [OF this] show ?thesis by simp
  next
    case False
    with Cons.prems obtain left' where "spec_absorb thr grp bs = (grp', left')" "left = b # left'"
      by (auto split: prod.splits)
    with Cons.IH [of grp grp' left'] show ?thesis by simp
  qed
qed

function spec_sweep :: "real \<Rightarrow> box list \<Rightarrow> box list list \<times> box list" where
  "spec_sweep thr [] = ([], [])"
| "spec_sweep thr (b # bs) =
     (case spec_absorb thr [b] bs of
        (grp, left) \<Rightarrow>
          (case spec_sweep thr left of
             (groups, ungrouped) \<Rightarrow>
               if length grp \<ge> 2 then (grp # groups, ungrouped)
               else (groups, b # ungrouped)))"
  by pat_completeness auto
termination spec_sweep
  by (relation "measure (\<lambda>(thr, bs). length bs)")
     (auto dest: spec_absorb_length [OF sym] simp: less_Suc_eq_le)

section \<open>Detection evaluation: \<open>evaluate_perf.py\<close>\<close>

text \<open>
  The exceptions the evaluation can raise on a well-typed document: a region
  without the key \<open>score\<close>, and the division \<open>i / N\<close> with \<open>N = 0\<close>.
\<close>

datatype error = KeyError | ZeroDivisionError

text \<open>
  A region dict holds its box under \<open>region\<close> and, for a prediction, its
  confidence under \<open>score\<close>. The key \<open>score\<close> may be missing (\<open>None\<close>).
\<close>

record annotated_region =
  region :: box
  score :: "real option"

record image =
  location :: string
  annotated_regions :: "annotated_region list"

record document =
  images :: "image list"

record pr_result =
  precision :: real
  recall :: real
  threshold :: real

text \<open>
  \<open>calculate_iou\<close>, lines 59-84. \<open>shapely.geometry.box(minx, miny, maxx, maxy)\<close> is
  the rectangle with these corners, whichever way round they are given; the areas
  of the intersection and of the union of two such rectangles are modelled exactly.
\<close>

definition box_area :: "box \<Rightarrow> real" where
  "box_area b = \<bar>xmax b - xmin b\<bar> * \<bar>ymax b - ymin b\<bar>"

definition intersection_area :: "box \<Rightarrow> box \<Rightarrow> real" where
  "intersection_area box1 box2 =
     max 0 (min (max (xmin box1) (xmax box1)) (max (xmin box2) (xmax box2))
            - max (min (xmin box1) (xmax box1)) (min (xmin box2) (xmax box2)))
     * max 0 (min (max (ymin box1) (ymax box1)) (max (ymin box2) (ymax box2))
              - max (min (ymin box1) (ymax box1)) (min (ymin box2) (ymax box2)))"

definition union_area :: "box \<Rightarrow> box \<Rightarrow> real" where
  "union_area box1 box2 = box_area box1 + box_area box2 - intersection_area box1 box2"

definition calculate_iou :: "box \<Rightarrow> box \<Rightarrow> real" where
  "calculate_iou box1 box2 =
     (if union_area box1 box2 = 0 then 0
      else intersection_area box1 box2 / union_area box1 box2)"

text \<open>
  \<open>list.sort(key=..., reverse=True)\<close> and \<open>sorted(..., key=..., reverse=True)\<close>:
  descending by key, elements with equal keys staying in their original order.
\<close>

definition sorted_reverse :: "('a \<Rightarrow> real) \<Rightarrow> 'a list \<Rightarrow> 'a list" where
  "sorted_reverse key xs = rev (sort_key key (rev xs))"

text \<open>The filter condition of line 115: \<open>region.get("score", 0) >= threshold\<close>.\<close>

definition passes_threshold :: "real \<Rightarrow> annotated_region \<Rightarrow> bool" where
  "passes_threshold thr r = ((case score r of None \<Rightarrow> 0 | Some s \<Rightarrow> s) \<ge> thr)"

text \<open>
  The comprehension of lines 113-115. A region that passes the filter is read with
  \<open>region["score"]\<close>, which raises \<open>KeyError\<close> when the key is missing.
\<close>

fun pred_boxes_of :: "real \<Rightarrow> annotated_region list \<Rightarrow> error + (box \<times> real) list" where
  "pred_boxes_of thr [] = Inr []"
| "pred_boxes_of thr (r # rs) =
     (if passes_threshold thr r
      then (case score r of
              None \<Rightarrow> Inl KeyError
            | Some s \<Rightarrow>
                (case pred_boxes_of thr rs of
                   Inl e \<Rightarrow> Inl e
                 | Inr ps \<Rightarrow> Inr ((region r, s) # ps)))
      else pred_boxes_of thr rs)"

text \<open>
  The inner loop of lines 133-140 over \<open>enumerate(gt_boxes)\<close>; the state is
  \<open>(best_iou, best_gt_idx)\<close>. \<open>matched_gt\<close> is a Python set that can also come to
  hold \<open>None\<close> (line 145), so its elements are \<open>nat option\<close>.
\<close>

fun find_best ::
  "box \<Rightarrow> nat option set \<Rightarrow> (nat \<times> box) list \<Rightarrow> real \<times> nat option \<Rightarrow> real \<times> nat option"
where
  "find_best pred matched_gt [] st = st"
| "find_best pred matched_gt ((idx, gt) # rest) (best_iou, best_gt_idx) =
     (if Some idx \<in> matched_gt then find_best pred matched_gt rest (best_iou, best_gt_idx)
      else if calculate_iou pred gt > best_iou
        then find_best pred matched_gt rest (calculate_iou pred gt, Some idx)
        else find_best pred matched_gt rest (best_iou, best_gt_idx))"

text \<open>
  The loop of lines 128-148 over the sorted predictions; the state is
  \<open>(true_positives, false_positives, false_negatives, matched_gt)\<close>.
\<close>

fun match_loop ::
  "real \<Rightarrow> box list \<Rightarrow> (box \<times> real) list \<Rightarrow> int \<times> int \<times> int \<times> nat option set
     \<Rightarrow> int \<times> int \<times> int \<times> nat option set"
where
  "match_loop Jaccard_min gt_boxes [] st = st"
| "match_loop Jaccard_min gt_boxes ((pred, s) # ps)
       (true_positives, false_positives, false_negatives, matched_gt) =
     (case find_best pred matched_gt (enumerate 0 gt_boxes) (0, None) of
        (best_iou, best_gt_idx) \<Rightarrow>
          if best_iou \<ge> Jaccard_min \<and> best_gt_idx \<notin> matched_gt
          then match_loop Jaccard_min gt_boxes ps
                 (true_positives + 1, false_positives, false_negatives - 1,
                  insert best_gt_idx matched_gt)
          else match_loop Jaccard_min gt_boxes ps
                 (true_positives, false_positives + 1, false_negatives, matched_gt))"

text \<open>
  \<open>evaluate_image\<close>, lines 90-150. Its two dict arguments are only read at the key
  \<open>annotated_regions\<close>, so the model takes the two region lists. The result is
  \<open>(true_positives, false_negatives, false_positives)\<close>.
\<close>

definition evaluate_image ::
  "annotated_region list \<Rightarrow> annotated_region list \<Rightarrow> real \<Rightarrow> real \<Rightarrow> error + int \<times> int \<times> int"
where
  "evaluate_image annotations predictions thr Jaccard_min =
     (let gt_boxes = map region annotations
      in case pred_boxes_of thr predictions of
           Inl e \<Rightarrow> Inl e
         | Inr unsorted \<Rightarrow>
             (let pred_boxes = sorted_reverse snd unsorted
              in if gt_boxes = [] \<or> pred_boxes = []
                 then Inr (0, int (length gt_boxes), int (length pred_boxes))
                 else (case match_loop Jaccard_min gt_boxes pred_boxes
                              (0, 0, int (length gt_boxes), {}) of
                         (true_positives, false_positives, false_negatives, matched_gt) \<Rightarrow>
                           Inr (true_positives, false_negatives, false_positives))))"

text \<open>\<open>thresholds = [i / N for i in range(N + 1)]\<close>, with \<open>N\<close> a Python int.\<close>

definition thresholds :: "int \<Rightarrow> error + real list" where
  "thresholds N =
     (if N = 0 then Inl ZeroDivisionError
      else Inr (map (\<lambda>i. real_of_int i / real_of_int N) [0..N]))"

text \<open>Precision and recall of one threshold, lines 184-191 and 253-256.\<close>

definition pr_record :: "int \<Rightarrow> int \<Rightarrow> int \<Rightarrow> real \<Rightarrow> pr_result" where
  "pr_record total_tp total_fp total_fn thr =
     \<lparr>precision = (if total_tp + total_fp > 0
                   then real_of_int total_tp / real_of_int (total_tp + total_fp) else 0),
      recall = (if total_tp + total_fn > 0
                then real_of_int total_tp / real_of_int (total_tp + total_fn) else 0),
      threshold = thr\<rparr>"

subsection \<open>\<open>evaluate_pr_naive\<close>, lines 154-193\<close>

text \<open>
  The comprehension of lines 173-176 reads \<open>region["score"]\<close> of every region, so it
  raises \<open>KeyError\<close> on a region without score. Its value is not used afterwards.
\<close>

fun naive_pred_boxes :: "real \<Rightarrow> annotated_region list \<Rightarrow> error + (box \<times> real) list" where
  "naive_pred_boxes thr [] = Inr []"
| "naive_pred_boxes thr (r # rs) =
     (case score r of
        None \<Rightarrow> Inl KeyError
      | Some s \<Rightarrow>
          (case naive_pred_boxes thr rs of
             Inl e \<Rightarrow> Inl e
           | Inr ps \<Rightarrow> Inr (if s \<ge> thr then (region r, s) # ps else ps)))"

text \<open>
  The loop over \<open>zip(annotations['images'], predictions['images'])\<close>, lines 171-182;
  the state is \<open>(total_tp, total_fp, total_fn)\<close>.
\<close>

fun naive_totals ::
  "real \<Rightarrow> real \<Rightarrow> (image \<times> image) list \<Rightarrow> int \<times> int \<times> int \<Rightarrow> error + int \<times> int \<times> int"
where
  "naive_totals thr Jaccard_min [] totals = Inr totals"
| "naive_totals thr Jaccard_min ((gt_img, pred_img) # rest) (total_tp, total_fp, total_fn) =
     (case naive_pred_boxes thr (annotated_regions pred_img) of
        Inl e \<Rightarrow> Inl e
      | Inr pred_boxes \<Rightarrow>
          (case evaluate_image (annotated_regions gt_img) (annotated_regions pred_img)
                  thr Jaccard_min of
             Inl e \<Rightarrow> Inl e
           | Inr (tp, fn, fp) \<Rightarrow>
               naive_totals thr Jaccard_min rest (total_tp + tp, total_fp + fp, total_fn + fn)))"

text \<open>The loop over the thresholds, lines 168-191; each round appends one record.\<close>

fun naive_sweep :: "real \<Rightarrow> (image \<times> image) list \<Rightarrow> real list \<Rightarrow> error + pr_result list" where
  "naive_sweep Jaccard_min pairs [] = Inr []"
| "naive_sweep Jaccard_min pairs (thr # ths) =
     (case naive_totals thr Jaccard_min pairs (0, 0, 0) of
        Inl e \<Rightarrow> Inl e
      | Inr (total_tp, total_fp, total_fn) \<Rightarrow>
          (case naive_sweep Jaccard_min pairs ths of
             Inl e \<Rightarrow> Inl e
           | Inr result_list \<Rightarrow> Inr (pr_record total_tp total_fp total_fn thr # result_list)))"

definition evaluate_pr_naive :: "document \<Rightarrow> document \<Rightarrow> int \<Rightarrow> real \<Rightarrow> error + pr_result list" where
  "evaluate_pr_naive annotations predictions N Jaccard_min =
     (case thresholds N of
        Inl e \<Rightarrow> Inl e
      | Inr ths \<Rightarrow> naive_sweep Jaccard_min (zip (images annotations) (images predictions)) ths)"

subsection \<open>\<open>evaluate_pr\<close>, lines 197-260\<close>

text \<open>\<open>[(region["region"], region["score"]) for region in img["annotated_regions"]]\<close>.\<close>

fun scored_pairs :: "annotated_region list \<Rightarrow> error + (box \<times> real) list" where
  "scored_pairs [] = Inr []"
| "scored_pairs (r # rs) =
     (case score r of
        None \<Rightarrow> Inl KeyError
      | Some s \<Rightarrow>
          (case scored_pairs rs of
             Inl e \<Rightarrow> Inl e
           | Inr ps \<Rightarrow> Inr ((region r, s) # ps)))"

text \<open>
  The dict comprehension of lines 220-226, image by image; a location that occurs
  again overwrites the earlier entry.
\<close>

fun sorted_predictions ::
  "image list \<Rightarrow> (string \<rightharpoonup> (box \<times> real) list) \<Rightarrow> error + (string \<rightharpoonup> (box \<times> real) list)"
where
  "sorted_predictions [] d = Inr d"
| "sorted_predictions (img # imgs) d =
     (case scored_pairs (annotated_regions img) of
        Inl e \<Rightarrow> Inl e
      | Inr ps \<Rightarrow> sorted_predictions imgs (d(location img \<mapsto> sorted_reverse snd ps)))"

text \<open>
  The loop over \<open>annotations['images']\<close>, lines 231-250; the state is
  \<open>(total_tp, total_fp, total_fn)\<close>.
\<close>

fun pr_totals ::
  "real \<Rightarrow> real \<Rightarrow> (string \<rightharpoonup> (box \<times> real) list) \<Rightarrow> image list \<Rightarrow> int \<times> int \<times> int
     \<Rightarrow> error + int \<times> int \<times> int"
where
  "pr_totals thr Jaccard_min d [] totals = Inr totals"
| "pr_totals thr Jaccard_min d (gt_img # rest) (total_tp, total_fp, total_fn) =
     (let pred_boxes = (case d (location gt_img) of None \<Rightarrow> [] | Some ps \<Rightarrow> ps);
          filtered_pred_boxes = filter (\<lambda>(b, s). s \<ge> thr) pred_boxes
      in case evaluate_image (annotated_regions gt_img)
                (map (\<lambda>(b, s). \<lparr>region = b, score = Some s\<rparr>) filtered_pred_boxes)
                thr Jaccard_min of
           Inl e \<Rightarrow> Inl e
         | Inr (tp, fn, fp) \<Rightarrow>
             pr_totals thr Jaccard_min d rest (total_tp + tp, total_fp + fp, total_fn + fn))"

text \<open>The loop over the thresholds, lines 228-256.\<close>

fun pr_sweep ::
  "real \<Rightarrow> (string \<rightharpoonup> (box \<times> real) list) \<Rightarrow> image list \<Rightarrow> real list \<Rightarrow> error + pr_result list"
where
  "pr_sweep Jaccard_min d gt_images [] = Inr []"
| "pr_sweep Jaccard_min d gt_images (thr # ths) =
     (case pr_totals thr Jaccard_min d gt_images (0, 0, 0) of
        Inl e \<Rightarrow> Inl e
      | Inr (total_tp, total_fp, total_fn) \<Rightarrow>
          (case pr_sweep Jaccard_min d gt_images ths of
             Inl e \<Rightarrow> Inl e
           | Inr results_list \<Rightarrow> Inr (pr_record total_tp total_fp total_fn thr # results_list)))"

definition evaluate_pr :: "document \<Rightarrow> document \<Rightarrow> int \<Rightarrow> real \<Rightarrow> error + pr_result list" where
  "evaluate_pr annotations predictions N Jaccard_min =
     (case thresholds N of
        Inl e \<Rightarrow> Inl e
      | Inr ths \<Rightarrow>
          (case sorted_predictions (images predictions) Map.empty of
             Inl e \<Rightarrow> Inl e
           | Inr d \<Rightarrow>
               (case pr_sweep Jaccard_min d (images annotations) (sorted_reverse id ths) of
                  Inl e \<Rightarrow> Inl e
                | Inr results_list \<Rightarrow> Inr (sort_key threshold results_list))))"

subsection \<open>The greedy matching as the specification words it\<close>

text \<open>
  Step 4 of contract A: for a prediction, the candidates are the ground-truth
  boxes that are not yet matched and have an IoU of at least \<open>iou_min\<close>; the
  prediction is matched with the candidate of highest IoU, the first one in list
  order when several have it, and is a false positive when there is no candidate.
\<close>

definition spec_candidates :: "real \<Rightarrow> box \<Rightarrow> nat set \<Rightarrow> box list \<Rightarrow> (nat \<times> box) list" where
  "spec_candidates iou_min pred matched gt_boxes =
     filter (\<lambda>(idx, gt). idx \<notin> matched \<and> calculate_iou pred gt \<ge> iou_min)
       (enumerate 0 gt_boxes)"

definition spec_choice :: "real \<Rightarrow> box \<Rightarrow> nat set \<Rightarrow> box list \<Rightarrow> nat option" where
  "spec_choice iou_min pred matched gt_boxes =
     (let cs = spec_candidates iou_min pred matched gt_boxes;
          best = Max (set (map (\<lambda>(idx, gt). calculate_iou pred gt) cs))
      in case filter (\<lambda>(idx, gt). calculate_iou pred gt = best) cs of
           [] \<Rightarrow> None
         | (idx, gt) # _ \<Rightarrow> Some idx)"

fun spec_match ::
  "real \<Rightarrow> box list \<Rightarrow> (box \<times> real) list \<Rightarrow> int \<times> int \<times> int \<times> nat set
     \<Rightarrow> int \<times> int \<times> int \<times> nat set"
where
  "spec_match iou_min gt_boxes [] st = st"
| "spec_match iou_min gt_boxes ((pred, s) # ps) (tp, fp, fn, matched) =
     (case spec_choice iou_min pred matched gt_boxes of
        None \<Rightarrow> spec_match iou_min gt_boxes ps (tp, fp + 1, fn, matched)
      | Some idx \<Rightarrow> spec_match iou_min gt_boxes ps (tp + 1, fp, fn - 1, insert idx matched))"

subsection \<open>The pairing of the images, in words\<close>

text \<open>
  What \<open>evaluate_pr\<close> is to compute, stated on the two documents and without the
  dict of sorted predictions. The predictions paired with a ground-truth image
  are the regions of the last prediction image that has its location, and none
  when no prediction image has it. The totals of a threshold are the sums of the
  counts that \<open>evaluate_image\<close> gives for each ground-truth image and its paired
  predictions; the curve has one record per threshold, in the order given.
\<close>

definition spec_paired_predictions :: "image list \<Rightarrow> string \<Rightarrow> annotated_region list" where
  "spec_paired_predictions prediction_images loc =
     (case filter (\<lambda>p. location p = loc) prediction_images of
        [] \<Rightarrow> []
      | p # ps \<Rightarrow> annotated_regions (last (p # ps)))"

fun spec_totals :: "real \<Rightarrow> real \<Rightarrow> image list \<Rightarrow> image list \<Rightarrow> error + int \<times> int \<times> int" where
  "spec_totals thr iou_min prediction_images [] = Inr (0, 0, 0)"
| "spec_totals thr iou_min prediction_images (gt_img # rest) =
     (case evaluate_image (annotated_regions gt_img)
             (spec_paired_predictions prediction_images (location gt_img)) thr iou_min of
        Inl e \<Rightarrow> Inl e
      | Inr (tp, fn, fp) \<Rightarrow>
          (case spec_totals thr iou_min prediction_images rest of
             Inl e \<Rightarrow> Inl e
           | Inr (total_tp, total_fp, total_fn) \<Rightarrow>
               Inr (tp + total_tp, fp + total_fp, fn + total_fn)))"

fun spec_curve :: "real \<Rightarrow> image list \<Rightarrow> image list \<Rightarrow> real list \<Rightarrow> error + pr_result list" where
  "spec_curve iou_min prediction_images gt_images [] = Inr []"
| "spec_curve iou_min prediction_images gt_images (thr # ths) =
     (case spec_totals thr iou_min prediction_images gt_images of
        Inl e \<Rightarrow> Inl e
      | Inr (total_tp, total_fp, total_fn) \<Rightarrow>
          (case spec_curve iou_min prediction_images gt_images ths of
             Inl e \<Rightarrow> Inl e
           | Inr rs \<Rightarrow> Inr (pr_record total_tp total_fp total_fn thr # rs)))"

section \<open>Properties of the box grouping\<close>

subsection \<open>Minimum and maximum\<close>



subsection \<open>The loop and its groups\<close>

lemma merge_loop_groups:
  "merge_loop thr bs is (map envelope gs, rem)
     = (case merge_groups thr bs is (gs, rem) of (gs', rem') \<Rightarrow> (map envelope gs', rem'))"
proof (induction "is" arbitrary: gs rem)
  case Nil
  then show ?case by simp
next
  case (Cons i "is")
  show ?case
  proof (cases "i \<in> rem")
    case False
    then show ?thesis by (simp add: Cons.IH)
  next
    case True
    obtain g rem1 cur where
      sc: "scan_group thr bs [Suc i ..< length bs] ([bs ! i], rem, xmax (bs ! i)) = (g, rem1, cur)"
      by (cases "scan_group thr bs [Suc i ..< length bs] ([bs ! i], rem, xmax (bs ! i))")
    show ?thesis
    proof (cases "length g > 1")
      case long: True
      have "merge_loop thr bs is (map envelope (gs @ [g]), rem1 - {i})
          = (case merge_groups thr bs is (gs @ [g], rem1 - {i}) of
               (gs', rem') \<Rightarrow> (map envelope gs', rem'))"
        by (rule Cons.IH)
      with True sc long show ?thesis by simp
    next
      case short: False
      with True sc show ?thesis by (simp add: Cons.IH)
    qed
  qed
qed

subsection \<open>The index-based loops compute the sweep\<close>

text \<open>
  The running \<open>current_xmax\<close> of the inner loop is the largest \<open>xmax\<close> of the group,
  and the boxes the loop skips or leaves in \<open>remaining_single_axle\<close> are those the
  sweep hands back.
\<close>

lemma Max_xmax_snoc:
  "g \<noteq> [] \<Longrightarrow> Max (set (map xmax (g @ [b]))) = max (Max (set (map xmax g))) (xmax b)"
  by (simp add: max.commute)

lemma scan_group_refines:
  "distinct js \<Longrightarrow> g \<noteq> [] \<Longrightarrow>
   scan_group thr bs js (g, rem, Max (set (map xmax g))) = (g', rem', cur') \<Longrightarrow>
     spec_absorb thr g (map ((!) bs) (filter (\<lambda>j. j \<in> rem) js))
       = (g', map ((!) bs) (filter (\<lambda>j. j \<in> rem') js))
     \<and> rem' \<subseteq> rem \<and> rem - rem' \<subseteq> set js"
proof (induction js arbitrary: g rem)
  case Nil
  then show ?case by simp
next
  case (Cons j js)
  from Cons.prems(1) have dist: "distinct js" and fresh: "j \<notin> set js" by simp_all
  show ?case
  proof (cases "j \<in> rem")
    case False
    with Cons.prems(3)
    have "scan_group thr bs js (g, rem, Max (set (map xmax g))) = (g', rem', cur')" by simp
    from Cons.IH [OF dist Cons.prems(2) this] False show ?thesis by auto
  next
    case True
    show ?thesis
    proof (cases "xmin (bs ! j) \<le> Max (set (map xmax g)) + thr")
      case close: True
      from Cons.prems(2) have ne: "g @ [bs ! j] \<noteq> []" by simp
      have eq: "max (Max (set (map xmax g))) (xmax (bs ! j)) = Max (set (map xmax (g @ [bs ! j])))"
        by (rule Max_xmax_snoc [OF Cons.prems(2), symmetric])
      from Cons.prems(3) True close
      have "scan_group thr bs js
              (g @ [bs ! j], rem - {j}, max (Max (set (map xmax g))) (xmax (bs ! j)))
            = (g', rem', cur')"
        by simp
      then have "scan_group thr bs js
              (g @ [bs ! j], rem - {j}, Max (set (map xmax (g @ [bs ! j])))) = (g', rem', cur')"
        by (simp only: eq)
      from Cons.IH [OF dist ne this]
      have ih: "spec_absorb thr (g @ [bs ! j]) (map ((!) bs) (filter (\<lambda>k. k \<in> rem - {j}) js))
                  = (g', map ((!) bs) (filter (\<lambda>k. k \<in> rem') js))"
        and sub: "rem' \<subseteq> rem - {j}" and frame: "rem - {j} - rem' \<subseteq> set js" by simp_all
      have same: "filter (\<lambda>k. k \<in> rem - {j}) js = filter (\<lambda>k. k \<in> rem) js"
        using fresh by (intro filter_cong) auto
      from sub have out: "j \<notin> rem'" by auto
      from ih same True close out sub frame show ?thesis by auto
    next
      case far: False
      from Cons.prems(3) True far
      have "scan_group thr bs js (g, rem, Max (set (map xmax g))) = (g', rem', cur')" by simp
      from Cons.IH [OF dist Cons.prems(2) this]
      have ih: "spec_absorb thr g (map ((!) bs) (filter (\<lambda>k. k \<in> rem) js))
                  = (g', map ((!) bs) (filter (\<lambda>k. k \<in> rem') js))"
        and sub: "rem' \<subseteq> rem" and frame: "rem - rem' \<subseteq> set js" by simp_all
      from frame fresh True have stay: "j \<in> rem'" by auto
      from ih True far stay sub frame show ?thesis by auto
    qed
  qed
qed

lemma merge_groups_refines:
  "merge_groups thr bs [i ..< length bs] (gs, rem) = (gs', rem') \<Longrightarrow>
   spec_sweep thr (map ((!) bs) (filter (\<lambda>j. j \<in> rem) [i ..< length bs])) = (groups, ungrouped) \<Longrightarrow>
     gs' = gs @ groups
     \<and> ungrouped = map ((!) bs) (filter (\<lambda>j. j \<in> rem') [i ..< length bs])
     \<and> rem' \<subseteq> rem \<and> (\<forall>k<i. k \<in> rem \<longrightarrow> k \<in> rem')"
proof (induction "length bs - i" arbitrary: i gs rem groups ungrouped)
  case 0
  then have empty: "[i ..< length bs] = []" by simp
  from "0.prems" show ?case by (simp add: empty)
next
  case (Suc d)
  from Suc.hyps(2) have lt: "i < length bs" and d: "d = length bs - Suc i" by simp_all
  have up: "[i ..< length bs] = i # [Suc i ..< length bs]"
    using lt by (simp add: upt_conv_Cons)
  show ?case
  proof (cases "i \<in> rem")
    case False
    from Suc.prems(1) False
    have m: "merge_groups thr bs [Suc i ..< length bs] (gs, rem) = (gs', rem')"
      by (simp add: up)
    from Suc.prems(2) False
    have s: "spec_sweep thr (map ((!) bs) (filter (\<lambda>j. j \<in> rem) [Suc i ..< length bs]))
               = (groups, ungrouped)"
      by (simp add: up)
    from Suc.hyps(1) [OF d m s]
    have ih: "gs' = gs @ groups"
      "ungrouped = map ((!) bs) (filter (\<lambda>j. j \<in> rem') [Suc i ..< length bs])"
      "rem' \<subseteq> rem" "\<forall>k<Suc i. k \<in> rem \<longrightarrow> k \<in> rem'" by simp_all
    from ih(3) False have "i \<notin> rem'" by auto
    with ih show ?thesis by (simp add: up)
  next
    case True
    obtain g rem1 cur where
      sc: "scan_group thr bs [Suc i ..< length bs] ([bs ! i], rem, xmax (bs ! i)) = (g, rem1, cur)"
      by (cases "scan_group thr bs [Suc i ..< length bs] ([bs ! i], rem, xmax (bs ! i))")
    have "scan_group thr bs [Suc i ..< length bs]
            ([bs ! i], rem, Max (set (map xmax [bs ! i]))) = (g, rem1, cur)"
      using sc by simp
    from scan_group_refines [OF _ _ this]
    have ab: "spec_absorb thr [bs ! i] (map ((!) bs) (filter (\<lambda>j. j \<in> rem) [Suc i ..< length bs]))
                = (g, map ((!) bs) (filter (\<lambda>j. j \<in> rem1) [Suc i ..< length bs]))"
      and sub1: "rem1 \<subseteq> rem" and frame1: "rem - rem1 \<subseteq> set [Suc i ..< length bs]"
      by simp_all
    from frame1 True have i1: "i \<in> rem1" by auto
    obtain groups1 ungrouped1 where
      s1: "spec_sweep thr (map ((!) bs) (filter (\<lambda>j. j \<in> rem1) [Suc i ..< length bs]))
             = (groups1, ungrouped1)"
      by (cases "spec_sweep thr (map ((!) bs) (filter (\<lambda>j. j \<in> rem1) [Suc i ..< length bs]))")
    from Suc.prems(2) True ab s1
    have res: "(groups, ungrouped)
        = (if length g \<ge> 2 then (g # groups1, ungrouped1) else (groups1, bs ! i # ungrouped1))"
      by (simp add: up)
    show ?thesis
    proof (cases "length g > 1")
      case long: True
      from Suc.prems(1) \<open>i \<in> rem\<close> sc long
      have m: "merge_groups thr bs [Suc i ..< length bs] (gs @ [g], rem1 - {i}) = (gs', rem')"
        by (simp add: up)
      have same: "filter (\<lambda>j. j \<in> rem1 - {i}) [Suc i ..< length bs]
          = filter (\<lambda>j. j \<in> rem1) [Suc i ..< length bs]"
        by (intro filter_cong) auto
      from s1 have s: "spec_sweep thr
          (map ((!) bs) (filter (\<lambda>j. j \<in> rem1 - {i}) [Suc i ..< length bs]))
             = (groups1, ungrouped1)"
        by (simp only: same)
      from Suc.hyps(1) [OF d m s]
      have ih: "gs' = (gs @ [g]) @ groups1"
        "ungrouped1 = map ((!) bs) (filter (\<lambda>j. j \<in> rem') [Suc i ..< length bs])"
        "rem' \<subseteq> rem1 - {i}" "\<forall>k<Suc i. k \<in> rem1 - {i} \<longrightarrow> k \<in> rem'" by simp_all
      from ih(3) have out: "i \<notin> rem'" by auto
      have below: "\<forall>k<i. k \<in> rem \<longrightarrow> k \<in> rem'"
      proof (intro allI impI)
        fix k assume k: "k < i" "k \<in> rem"
        with frame1 have "k \<in> rem1" by auto
        with k ih(4) show "k \<in> rem'" by auto
      qed
      from res long ih out sub1 below show ?thesis by (auto simp: up)
    next
      case short: False
      from Suc.prems(1) \<open>i \<in> rem\<close> sc short
      have m: "merge_groups thr bs [Suc i ..< length bs] (gs, rem1) = (gs', rem')"
        by (simp add: up)
      from Suc.hyps(1) [OF d m s1]
      have ih: "gs' = gs @ groups1"
        "ungrouped1 = map ((!) bs) (filter (\<lambda>j. j \<in> rem') [Suc i ..< length bs])"
        "rem' \<subseteq> rem1" "\<forall>k<Suc i. k \<in> rem1 \<longrightarrow> k \<in> rem'" by simp_all
      from ih(4) i1 have stay: "i \<in> rem'" by auto
      have below: "\<forall>k<i. k \<in> rem \<longrightarrow> k \<in> rem'"
      proof (intro allI impI)
        fix k assume k: "k < i" "k \<in> rem"
        with frame1 have "k \<in> rem1" by auto
        with k ih(4) show "k \<in> rem'" by auto
      qed
      from res short ih stay sub1 below show ?thesis by (auto simp: up)
    qed
  qed
qed

lemma sorted_list_of_subset_upt:
  assumes "rem \<subseteq> set [0 ..< n]"
  shows "sorted_list_of_set rem = filter (\<lambda>j. j \<in> rem) [0 ..< n]"
proof -
  have "set (filter (\<lambda>j. j \<in> rem) [0 ..< n]) = rem" using assms by auto
  moreover have "sorted (filter (\<lambda>j. j \<in> rem) [0 ..< n])" by (simp add: sorted_wrt_filter)
  moreover have "distinct (filter (\<lambda>j. j \<in> rem) [0 ..< n])" by simp
  ultimately show ?thesis
    using sorted_list_of_set.idem_if_sorted_distinct [of "filter (\<lambda>j. j \<in> rem) [0 ..< n]"]
    by simp
qed

lemma merge_groups_sweep:
  assumes m: "merge_groups thr bs [0 ..< length bs] ([], set [0 ..< length bs]) = (gs, rem)"
    and s: "spec_sweep thr bs = (groups, ungrouped)"
  shows "gs = groups \<and> map (\<lambda>i. bs ! i) (sorted_list_of_set rem) = ungrouped"
proof -
  have all: "filter (\<lambda>j. j \<in> set [0 ..< length bs]) [0 ..< length bs] = [0 ..< length bs]"
    by (simp add: filter_id_conv)
  have "map ((!) bs) [0 ..< length bs] = bs" by (rule map_nth)
  with s have s': "spec_sweep thr
      (map ((!) bs) (filter (\<lambda>j. j \<in> set [0 ..< length bs]) [0 ..< length bs]))
        = (groups, ungrouped)"
    by (simp only: all)
  from merge_groups_refines [OF m s']
  have r: "gs = groups" "ungrouped = map ((!) bs) (filter (\<lambda>j. j \<in> rem) [0 ..< length bs])"
    "rem \<subseteq> set [0 ..< length bs]" by simp_all
  from sorted_list_of_subset_upt [OF r(3)] r(1,2) show ?thesis by simp
qed

lemma merge_image_sweep:
  "merge_image thr boxes
     = (case spec_sweep thr (sort_key xmin boxes) of
          (groups, ungrouped) \<Rightarrow>
            \<lparr>grouped_axles = map envelope groups, single_axle = ungrouped\<rparr>)"
proof -
  define bs where "bs = sort_key xmin boxes"
  have len: "length boxes = length bs" by (simp add: bs_def)
  obtain gs rem where
    m: "merge_groups thr bs [0 ..< length bs] ([], set [0 ..< length bs]) = (gs, rem)"
    by (cases "merge_groups thr bs [0 ..< length bs] ([], set [0 ..< length bs])")
  obtain groups ungrouped where s: "spec_sweep thr bs = (groups, ungrouped)"
    by (cases "spec_sweep thr bs")
  have l: "merge_loop thr bs [0 ..< length bs] ([], set [0 ..< length bs])
      = (map envelope gs, rem)"
    using merge_loop_groups [of thr bs "[0 ..< length bs]" "[]" "set [0 ..< length bs]"] m
    by simp
  from merge_groups_sweep [OF m s] l s show ?thesis
    by (simp add: merge_image_def Let_def len bs_def [symmetric])
qed

lemma groups_of_image_sweep:
  "groups_of_image thr boxes = fst (spec_sweep thr (sort_key xmin boxes))"
proof -
  define bs where "bs = sort_key xmin boxes"
  have len: "length boxes = length bs" by (simp add: bs_def)
  obtain gs rem where
    m: "merge_groups thr bs [0 ..< length bs] ([], set [0 ..< length bs]) = (gs, rem)"
    by (cases "merge_groups thr bs [0 ..< length bs] ([], set [0 ..< length bs])")
  obtain groups ungrouped where s: "spec_sweep thr bs = (groups, ungrouped)"
    by (cases "spec_sweep thr bs")
  from merge_groups_sweep [OF m s] m s show ?thesis
    by (simp add: groups_of_image_def Let_def len bs_def [symmetric])
qed

subsection \<open>The sweep partitions the boxes\<close>

lemma spec_absorb_mset:
  "spec_absorb thr g bs = (g', left) \<Longrightarrow> mset g' + mset left = mset g + mset bs"
proof (induction bs arbitrary: g g' left)
  case Nil
  then show ?case by simp
next
  case (Cons b bs)
  show ?case
  proof (cases "xmin b \<le> Max (set (map xmax g)) + thr")
    case True
    with Cons.prems have "spec_absorb thr (g @ [b]) bs = (g', left)" by simp
    from Cons.IH [OF this] show ?thesis by simp
  next
    case False
    with Cons.prems obtain left' where "spec_absorb thr g bs = (g', left')" "left = b # left'"
      by (auto split: prod.splits)
    with Cons.IH [of g g' left'] show ?thesis by simp
  qed
qed

lemma spec_absorb_extends:
  "spec_absorb thr g bs = (g', left) \<Longrightarrow> \<exists>joined. g' = g @ joined"
proof (induction bs arbitrary: g g' left)
  case Nil
  then show ?case by simp
next
  case (Cons b bs)
  show ?case
  proof (cases "xmin b \<le> Max (set (map xmax g)) + thr")
    case True
    with Cons.prems have "spec_absorb thr (g @ [b]) bs = (g', left)" by simp
    from Cons.IH [OF this] show ?thesis by auto
  next
    case False
    with Cons.prems obtain left' where "spec_absorb thr g bs = (g', left')"
      by (auto split: prod.splits)
    from Cons.IH [OF this] show ?thesis .
  qed
qed

lemma spec_sweep_partition:
  "spec_sweep thr bs = (groups, ungrouped) \<Longrightarrow>
     mset (concat groups) + mset ungrouped = mset bs \<and> (\<forall>g\<in>set groups. 2 \<le> length g)"
proof (induction thr bs arbitrary: groups ungrouped rule: spec_sweep.induct)
  case (1 thr)
  then show ?case by simp
next
  case (2 thr b bs)
  obtain g left where ab: "spec_absorb thr [b] bs = (g, left)"
    by (cases "spec_absorb thr [b] bs")
  obtain groups1 ungrouped1 where s1: "spec_sweep thr left = (groups1, ungrouped1)"
    by (cases "spec_sweep thr left")
  from "2.IH" [OF ab [symmetric] s1]
  have ih: "mset (concat groups1) + mset ungrouped1 = mset left" "\<forall>g\<in>set groups1. 2 \<le> length g"
    by simp_all
  from spec_absorb_mset [OF ab] have part: "mset g + mset left = {#b#} + mset bs" by simp
  show ?case
  proof (cases "2 \<le> length g")
    case True
    with "2.prems" ab s1 have "groups = g # groups1" "ungrouped = ungrouped1" by simp_all
    with ih part True show ?thesis by (simp add: ac_simps)
  next
    case False
    with "2.prems" ab s1 have res: "groups = groups1" "ungrouped = b # ungrouped1" by simp_all
    from spec_absorb_extends [OF ab] obtain joined where "g = [b] @ joined" by blast
    with False have "g = [b]" by (cases joined) simp_all
    with part have "mset left = mset bs" by simp
    with ih res show ?thesis by simp
  qed
qed

lemma merge_image_groups:
  "grouped_axles (merge_image thr boxes) = map envelope (groups_of_image thr boxes)
   \<and> mset (concat (groups_of_image thr boxes)) + mset (single_axle (merge_image thr boxes)) = mset boxes
   \<and> (\<forall>g\<in>set (groups_of_image thr boxes). 2 \<le> length g)"
proof -
  obtain groups ungrouped where s: "spec_sweep thr (sort_key xmin boxes) = (groups, ungrouped)"
    by (cases "spec_sweep thr (sort_key xmin boxes)")
  from spec_sweep_partition [OF s] s show ?thesis
    by (simp add: merge_image_sweep groups_of_image_sweep)
qed

text \<open>
  Claim C3. \<open>merge_boxes\<close> treats every image on its own (\<open>merge_image\<close>), and for
  every image the groups, whose envelopes are the list \<open>grouped_axles\<close>, together
  with the list \<open>single_axle\<close> hold every input box exactly once (as multisets):
  no box is dropped, duplicated, changed or put in both.
\<close>

theorem merge_boxes_partition:
  "map fst (merge_boxes m thr) = map fst m
   \<and> map snd (merge_boxes m thr) = map (\<lambda>(image_id, boxes). merge_image thr boxes) m
   \<and> grouped_axles (merge_image thr boxes) = map envelope (groups_of_image thr boxes)
   \<and> mset (concat (groups_of_image thr boxes)) + mset (single_axle (merge_image thr boxes))
       = mset boxes"
  using merge_image_groups [of thr boxes]
  by (simp add: merge_boxes_def case_prod_unfold comp_def)




text \<open>
  Claim C1. \<open>merge_boxes\<close> treats every image on its own, and per image it
  computes the left-to-right sweep of the specification on the boxes sorted by
  \<open>xmin\<close>: a box that is left joins the current
  group exactly when its \<open>xmin\<close> is at most the largest \<open>xmax\<close> of the boxes absorbed
  so far plus the threshold (\<open>spec_absorb\<close>). Scenario 1: \<open>A\<close> from 0 to 10 and \<open>B\<close>
  from 10.005 to 20 merge into one box from 0 to 20. Scenario 2: with \<open>B\<close> from
  10.02 both are returned ungrouped. A chain: \<open>C\<close> from 20.005 to 30 is not
  close to \<open>A\<close> but joins the group of \<open>A\<close> and \<open>B\<close>.
\<close>

theorem merge_boxes_follows_sweep:
  "merge_boxes m thr = map (\<lambda>(image_id, boxes). (image_id, merge_image thr boxes)) m
   \<and> merge_image thr boxes
     = (case spec_sweep thr (sort_key xmin boxes) of
          (groups, ungrouped) \<Rightarrow>
            \<lparr>grouped_axles = map envelope groups, single_axle = ungrouped\<rparr>)
   \<and> merge_boxes
        [(image_id, [\<lparr>xmin = 0, ymin = a, xmax = 10, ymax = b\<rparr>,
                     \<lparr>xmin = 10005/1000, ymin = c, xmax = 20, ymax = d\<rparr>])] (1/100)
     = [(image_id,
         \<lparr>grouped_axles = [\<lparr>xmin = 0, ymin = min a c, xmax = 20, ymax = max b d\<rparr>],
          single_axle = []\<rparr>)]
   \<and> merge_boxes
        [(image_id, [\<lparr>xmin = 0, ymin = a, xmax = 10, ymax = b\<rparr>,
                     \<lparr>xmin = 1002/100, ymin = c, xmax = 20, ymax = d\<rparr>])] (1/100)
     = [(image_id,
         \<lparr>grouped_axles = [],
          single_axle = [\<lparr>xmin = 0, ymin = a, xmax = 10, ymax = b\<rparr>,
                         \<lparr>xmin = 1002/100, ymin = c, xmax = 20, ymax = d\<rparr>]\<rparr>)]
   \<and> merge_boxes
        [(image_id, [\<lparr>xmin = 0, ymin = a, xmax = 10, ymax = b\<rparr>,
                     \<lparr>xmin = 10005/1000, ymin = a, xmax = 20, ymax = b\<rparr>,
                     \<lparr>xmin = 20005/1000, ymin = a, xmax = 30, ymax = b\<rparr>])] (1/100)
     = [(image_id,
         \<lparr>grouped_axles = [\<lparr>xmin = 0, ymin = a, xmax = 30, ymax = b\<rparr>],
          single_axle = []\<rparr>)]"
proof (intro conjI)
  show "merge_boxes m thr = map (\<lambda>(image_id, boxes). (image_id, merge_image thr boxes)) m"
    by (simp add: merge_boxes_def)
next
  show "merge_image thr boxes
     = (case spec_sweep thr (sort_key xmin boxes) of
          (groups, ungrouped) \<Rightarrow>
            \<lparr>grouped_axles = map envelope groups, single_axle = ungrouped\<rparr>)"
    by (rule merge_image_sweep)
next
  have l: "[0 ..< 2] = [0, Suc 0]" "[Suc 0 ..< 2] = [Suc 0]" "[2 ..< 2] = []"
    by (simp_all add: upt_rec)
  have e: "{0..<2} - {Suc 0} \<subseteq> {0::nat}" by auto
  show "merge_boxes
        [(image_id, [\<lparr>xmin = 0, ymin = a, xmax = 10, ymax = b\<rparr>,
                     \<lparr>xmin = 10005/1000, ymin = c, xmax = 20, ymax = d\<rparr>])] (1/100)
     = [(image_id,
         \<lparr>grouped_axles = [\<lparr>xmin = 0, ymin = min a c, xmax = 20, ymax = max b d\<rparr>],
          single_axle = []\<rparr>)]"
    by (simp add: merge_boxes_def merge_image_def envelope_def l e min_def max_def
          numeral_2_eq_2 [symmetric])
next
  have l: "[0 ..< 2] = [0, Suc 0]" "[Suc 0 ..< 2] = [Suc 0]" "[2 ..< 2] = []"
    by (simp_all add: upt_rec)
  have e: "sorted_list_of_set {0..<2::nat} = [0, Suc 0]"
    using sorted_list_of_set.idem_if_sorted_distinct [of "[0, Suc 0 :: nat]"]
    by (simp add: atLeastLessThanSuc numeral_2_eq_2)
  show "merge_boxes
        [(image_id, [\<lparr>xmin = 0, ymin = a, xmax = 10, ymax = b\<rparr>,
                     \<lparr>xmin = 1002/100, ymin = c, xmax = 20, ymax = d\<rparr>])] (1/100)
     = [(image_id,
         \<lparr>grouped_axles = [],
          single_axle = [\<lparr>xmin = 0, ymin = a, xmax = 10, ymax = b\<rparr>,
                         \<lparr>xmin = 1002/100, ymin = c, xmax = 20, ymax = d\<rparr>]\<rparr>)]"
    by (simp add: merge_boxes_def merge_image_def envelope_def l e numeral_2_eq_2 [symmetric])
next
  have l: "[0 ..< 3] = [0, Suc 0, 2]" "[Suc 0 ..< 3] = [Suc 0, 2]" "[2 ..< 3] = [2]"
    "[3 ..< 3] = []" "[Suc 2 ..< 3] = []"
    by (simp_all add: upt_rec)
  have e: "{0..<3} - {Suc 0} - {2} \<subseteq> {0::nat}" by auto
  show "merge_boxes
        [(image_id, [\<lparr>xmin = 0, ymin = a, xmax = 10, ymax = b\<rparr>,
                     \<lparr>xmin = 10005/1000, ymin = a, xmax = 20, ymax = b\<rparr>,
                     \<lparr>xmin = 20005/1000, ymin = a, xmax = 30, ymax = b\<rparr>])] (1/100)
     = [(image_id,
         \<lparr>grouped_axles = [\<lparr>xmin = 0, ymin = a, xmax = 30, ymax = b\<rparr>],
          single_axle = []\<rparr>)]"
    by (simp add: merge_boxes_def merge_image_def envelope_def l e numeral_3_eq_3 [symmetric])
qed

section \<open>Properties of the detection evaluation\<close>

subsection \<open>Sorting and filtering\<close>

lemma length_sorted_reverse: "length (sorted_reverse key xs) = length xs"
  by (simp add: sorted_reverse_def)

lemma sorted_reverse_Nil_iff: "sorted_reverse key xs = [] \<longleftrightarrow> xs = []"
  using length_sorted_reverse [of key xs] by (metis length_0_conv)

lemma pred_boxes_of_length:
  "pred_boxes_of thr rs = Inr ps \<Longrightarrow> length ps = length (filter (passes_threshold thr) rs)"
  by (induction rs arbitrary: ps) (auto split: if_splits option.splits sum.splits)

subsection \<open>The counters of the matching loop\<close>

lemma match_loop_counts:
  "match_loop J gts ps (tp, fp, fn, m) = (tp', fp', fn', m') \<Longrightarrow>
     tp' + fn' = tp + fn \<and> tp' + fp' = tp + fp + int (length ps)"
proof (induction ps arbitrary: tp fp fn m)
  case Nil
  then show ?case by simp
next
  case (Cons p ps)
  obtain pred s where p: "p = (pred, s)" by (cases p)
  obtain bi bg where fb: "find_best pred m (enumerate 0 gts) (0, None) = (bi, bg)"
    by (cases "find_best pred m (enumerate 0 gts) (0, None)")
  show ?case
  proof (cases "bi \<ge> J \<and> bg \<notin> m")
    case True
    with Cons.prems p fb
    have "match_loop J gts ps (tp + 1, fp, fn - 1, insert bg m) = (tp', fp', fn', m')" by simp
    from Cons.IH [OF this] show ?thesis by simp
  next
    case False
    with Cons.prems p fb
    have "match_loop J gts ps (tp, fp + 1, fn, m) = (tp', fp', fn', m')" by auto
    from Cons.IH [OF this] show ?thesis by simp
  qed
qed

text \<open>
  Claim C7. Whenever \<open>evaluate_image\<close> returns counts, \<open>TP + FN\<close> is the number of
  ground-truth boxes and \<open>TP + FP\<close> is the number of predictions that pass the
  threshold filter of line 115; when either list is empty the result is
  \<open>TP = 0\<close>, \<open>FN = |ground truth|\<close>, \<open>FP = |filtered predictions|\<close>.
\<close>

theorem evaluate_image_counts:
  assumes "evaluate_image annotations predictions thr J = Inr (tp, fn, fp)"
  shows "tp + fn = int (length annotations)
       \<and> tp + fp = int (length (filter (passes_threshold thr) predictions))
       \<and> (annotations = [] \<or> filter (passes_threshold thr) predictions = []
            \<longrightarrow> tp = 0 \<and> fn = int (length annotations)
                \<and> fp = int (length (filter (passes_threshold thr) predictions)))"
proof -
  from assms obtain unsorted where u: "pred_boxes_of thr predictions = Inr unsorted"
    by (cases "pred_boxes_of thr predictions") (auto simp: evaluate_image_def)
  have len: "length unsorted = length (filter (passes_threshold thr) predictions)"
    using pred_boxes_of_length [OF u] .
  show ?thesis
  proof (cases "annotations = [] \<or> unsorted = []")
    case True
    with assms u len show ?thesis
      by (auto simp: evaluate_image_def sorted_reverse_Nil_iff length_sorted_reverse)
  next
    case False
    then obtain tp' fp' fn' m' where
      ml: "match_loop J (map region annotations) (sorted_reverse snd unsorted)
             (0, 0, int (length annotations), {}) = (tp', fp', fn', m')"
      by (cases "match_loop J (map region annotations) (sorted_reverse snd unsorted)
             (0, 0, int (length annotations), {})") auto
    with assms u False have res: "tp = tp'" "fn = fn'" "fp = fp'"
      by (auto simp: evaluate_image_def sorted_reverse_Nil_iff)
    from match_loop_counts [OF ml] res len False show ?thesis
      by (auto simp: length_sorted_reverse)
  qed
qed

text \<open>
  An instance: one ground-truth box, three predictions of which two pass the
  threshold \<open>0.5\<close>; the result is \<open>TP = 1\<close>, \<open>FN = 0\<close>, \<open>FP = 1\<close>.
\<close>

theorem evaluate_image_counts_witness:
  "evaluate_image [\<lparr>region = \<lparr>xmin = 0, ymin = 0, xmax = 10, ymax = 10\<rparr>, score = None\<rparr>]
     [\<lparr>region = \<lparr>xmin = 0, ymin = 0, xmax = 10, ymax = 10\<rparr>, score = Some (9/10)\<rparr>,
      \<lparr>region = \<lparr>xmin = 50, ymin = 50, xmax = 60, ymax = 60\<rparr>, score = Some (8/10)\<rparr>,
      \<lparr>region = \<lparr>xmin = 0, ymin = 0, xmax = 10, ymax = 10\<rparr>, score = Some (1/10)\<rparr>]
     (1/2) (1/2) = Inr (1, 0, 1)
   \<and> (1::int) + 0 = int (length [\<lparr>region = \<lparr>xmin = 0, ymin = 0, xmax = 10, ymax = 10\<rparr>, score = None\<rparr>])
   \<and> (1::int) + 1 = int (length (filter (passes_threshold (1/2))
     [\<lparr>region = \<lparr>xmin = 0, ymin = 0, xmax = 10, ymax = 10\<rparr>, score = Some (9/10)\<rparr>,
      \<lparr>region = \<lparr>xmin = 50, ymin = 50, xmax = 60, ymax = 60\<rparr>, score = Some (8/10)\<rparr>,
      \<lparr>region = \<lparr>xmin = 0, ymin = 0, xmax = 10, ymax = 10\<rparr>, score = Some (1/10)\<rparr>]))"
proof -
  have e: "evaluate_image [\<lparr>region = \<lparr>xmin = 0, ymin = 0, xmax = 10, ymax = 10\<rparr>, score = None\<rparr>]
     [\<lparr>region = \<lparr>xmin = 0, ymin = 0, xmax = 10, ymax = 10\<rparr>, score = Some (9/10)\<rparr>,
      \<lparr>region = \<lparr>xmin = 50, ymin = 50, xmax = 60, ymax = 60\<rparr>, score = Some (8/10)\<rparr>,
      \<lparr>region = \<lparr>xmin = 0, ymin = 0, xmax = 10, ymax = 10\<rparr>, score = Some (1/10)\<rparr>]
     (1/2) (1/2) = Inr (1, 0, 1)"
    by code_simp
  from evaluate_image_counts [OF e] e show ?thesis by simp
qed

text \<open>
  Claim C10. A prediction region without the key \<open>score\<close> passes the filter
  \<open>region.get("score", 0) >= threshold\<close> at threshold \<open>0\<close>; the comprehension then reads
  \<open>region["score"]\<close>, and \<open>evaluate_image\<close> raises \<open>KeyError\<close> instead of counting
  the region with score \<open>0\<close>. At a positive threshold the region is left out.
\<close>

theorem evaluate_image_missing_score_raises:
  "evaluate_image []
     [\<lparr>region = \<lparr>xmin = 0, ymin = 0, xmax = 10, ymax = 10\<rparr>, score = None\<rparr>] 0 (1/2)
   = Inl KeyError
   \<and> evaluate_image []
     [\<lparr>region = \<lparr>xmin = 0, ymin = 0, xmax = 10, ymax = 10\<rparr>, score = None\<rparr>] (1/10) (1/2)
   = Inr (0, 0, 0)"
  by (simp add: evaluate_image_def passes_threshold_def sorted_reverse_def)

text \<open>
  Claim C2. With \<open>Jaccard_min = 0\<close>, one ground-truth box and two predictions of
  scores \<open>0.9\<close> and \<open>0.8\<close> that both coincide with it: the second prediction finds
  no unmatched ground truth, \<open>best_gt_idx\<close> stays \<open>None\<close>, and the test of line 143
  still succeeds. Both predictions are counted as true positives and the number
  of false negatives becomes \<open>-1\<close>.
\<close>

theorem evaluate_image_zero_jaccard_overcounts:
  "evaluate_image
     [\<lparr>region = \<lparr>xmin = 0, ymin = 0, xmax = 10, ymax = 10\<rparr>, score = None\<rparr>]
     [\<lparr>region = \<lparr>xmin = 0, ymin = 0, xmax = 10, ymax = 10\<rparr>, score = Some (9/10)\<rparr>,
      \<lparr>region = \<lparr>xmin = 0, ymin = 0, xmax = 10, ymax = 10\<rparr>, score = Some (8/10)\<rparr>]
     (1/2) 0
   = Inr (2, - 1, 0)"
  by code_simp

subsection \<open>The matching loop and the greedy matching\<close>

lemma find_best_first_max:
  "find_best pred m xs (bi, bg) = (bi', bg') \<Longrightarrow>
     (bi' = bi \<and> bg' = bg
        \<and> (\<forall>x\<in>set (filter (\<lambda>x. Some (fst x) \<notin> m) xs). calculate_iou pred (snd x) \<le> bi))
   \<or> (\<exists>pre x post. filter (\<lambda>x. Some (fst x) \<notin> m) xs = pre @ x # post
          \<and> bi' = calculate_iou pred (snd x) \<and> bg' = Some (fst x)
          \<and> bi < calculate_iou pred (snd x)
          \<and> (\<forall>y\<in>set pre. calculate_iou pred (snd y) < calculate_iou pred (snd x))
          \<and> (\<forall>y\<in>set post. calculate_iou pred (snd y) \<le> calculate_iou pred (snd x)))"
proof (induction xs arbitrary: bi bg)
  case Nil
  then show ?case by simp
next
  case (Cons x0 xs)
  obtain idx gt where x0: "x0 = (idx, gt)" by (cases x0)
  let ?U = "filter (\<lambda>x. Some (fst x) \<notin> m) xs"
  let ?iou = "\<lambda>x. calculate_iou pred (snd x)"
  show ?case
  proof (cases "Some idx \<in> m")
    case True
    with Cons.prems x0 have "find_best pred m xs (bi, bg) = (bi', bg')" by simp
    from Cons.IH [OF this] True x0 show ?thesis by simp
  next
    case False
    show ?thesis
    proof (cases "calculate_iou pred gt > bi")
      case better: True
      with Cons.prems x0 False
      have "find_best pred m xs (calculate_iou pred gt, Some idx) = (bi', bg')" by simp
      from Cons.IH [OF this]
      show ?thesis
      proof
        assume a: "bi' = calculate_iou pred gt \<and> bg' = Some idx
          \<and> (\<forall>x\<in>set ?U. ?iou x \<le> calculate_iou pred gt)"
        have "filter (\<lambda>x. Some (fst x) \<notin> m) (x0 # xs) = [] @ x0 # ?U"
          using False x0 by simp
        with a better x0 show ?thesis
          by (intro disjI2, rule_tac x = "[]" in exI, rule_tac x = x0 in exI,
              rule_tac x = "filter (\<lambda>x. Some (fst x) \<notin> m) xs" in exI) simp
      next
        assume "\<exists>pre x post. ?U = pre @ x # post
          \<and> bi' = ?iou x \<and> bg' = Some (fst x) \<and> calculate_iou pred gt < ?iou x
          \<and> (\<forall>y\<in>set pre. ?iou y < ?iou x) \<and> (\<forall>y\<in>set post. ?iou y \<le> ?iou x)"
        then obtain pre x post where b: "?U = pre @ x # post"
          "bi' = ?iou x" "bg' = Some (fst x)" "calculate_iou pred gt < ?iou x"
          "\<forall>y\<in>set pre. ?iou y < ?iou x" "\<forall>y\<in>set post. ?iou y \<le> ?iou x" by blast
        have "filter (\<lambda>x. Some (fst x) \<notin> m) (x0 # xs) = (x0 # pre) @ x # post"
          using False x0 b(1) by simp
        moreover have "\<forall>y\<in>set (x0 # pre). ?iou y < ?iou x" using b(4,5) x0 by simp
        moreover have "bi < ?iou x" using better b(4) by simp
        ultimately show ?thesis using b(2,3,6)
          by (intro disjI2, rule_tac x = "x0 # pre" in exI, rule_tac x = x in exI,
              rule_tac x = post in exI) simp
      qed
    next
      case worse: False
      with Cons.prems x0 \<open>Some idx \<notin> m\<close>
      have "find_best pred m xs (bi, bg) = (bi', bg')" by simp
      from Cons.IH [OF this]
      show ?thesis
      proof
        assume a: "bi' = bi \<and> bg' = bg \<and> (\<forall>x\<in>set ?U. ?iou x \<le> bi)"
        with worse x0 \<open>Some idx \<notin> m\<close> show ?thesis by auto
      next
        assume "\<exists>pre x post. ?U = pre @ x # post
          \<and> bi' = ?iou x \<and> bg' = Some (fst x) \<and> bi < ?iou x
          \<and> (\<forall>y\<in>set pre. ?iou y < ?iou x) \<and> (\<forall>y\<in>set post. ?iou y \<le> ?iou x)"
        then obtain pre x post where b: "?U = pre @ x # post"
          "bi' = ?iou x" "bg' = Some (fst x)" "bi < ?iou x"
          "\<forall>y\<in>set pre. ?iou y < ?iou x" "\<forall>y\<in>set post. ?iou y \<le> ?iou x" by blast
        have "filter (\<lambda>x. Some (fst x) \<notin> m) (x0 # xs) = (x0 # pre) @ x # post"
          using \<open>Some idx \<notin> m\<close> x0 b(1) by simp
        moreover have "\<forall>y\<in>set (x0 # pre). ?iou y < ?iou x" using b(4,5) x0 worse by auto
        ultimately show ?thesis using b(2,3,4,6)
          by (intro disjI2, rule_tac x = "x0 # pre" in exI, rule_tac x = x in exI,
              rule_tac x = post in exI) simp
      qed
    qed
  qed
qed

lemma spec_choice_agrees:
  assumes J: "0 < J"
    and fb: "find_best pred (Some ` M) (enumerate 0 gts) (0, None) = (bi, bg)"
  shows "(if bi \<ge> J \<and> bg \<notin> Some ` M then bg else None) = spec_choice J pred M gts
       \<and> (bi \<ge> J \<and> bg \<notin> Some ` M \<longrightarrow> bg \<noteq> None)"
proof -
  let ?iou = "\<lambda>x. calculate_iou pred (snd x)"
  define U where "U = filter (\<lambda>x. Some (fst x) \<notin> Some ` M) (enumerate 0 gts)"
  define cs where "cs = spec_candidates J pred M gts"
  have cs: "cs = filter (\<lambda>x. J \<le> ?iou x) U"
    by (auto simp: cs_def U_def spec_candidates_def case_prod_unfold intro: filter_cong)
  have choice: "spec_choice J pred M gts
      = (case filter (\<lambda>x. ?iou x = Max (set (map ?iou cs))) cs of
           [] \<Rightarrow> None | x # _ \<Rightarrow> Some (fst x))"
    by (simp add: spec_choice_def cs_def Let_def case_prod_unfold split: list.splits)
  from find_best_first_max [OF fb, folded U_def]
  show ?thesis
  proof
    assume a: "bi = 0 \<and> bg = None \<and> (\<forall>x\<in>set U. ?iou x \<le> 0)"
    with J have "cs = []" by (auto simp: cs filter_empty_conv)
    with a J show ?thesis by (simp add: choice)
  next
    assume "\<exists>pre x post. U = pre @ x # post
          \<and> bi = ?iou x \<and> bg = Some (fst x) \<and> 0 < ?iou x
          \<and> (\<forall>y\<in>set pre. ?iou y < ?iou x) \<and> (\<forall>y\<in>set post. ?iou y \<le> ?iou x)"
    then obtain pre x post where b: "U = pre @ x # post"
      "bi = ?iou x" "bg = Some (fst x)"
      "\<forall>y\<in>set pre. ?iou y < ?iou x" "\<forall>y\<in>set post. ?iou y \<le> ?iou x" by blast
    have "x \<in> set U" using b(1) by simp
    then have free: "fst x \<notin> M" by (auto simp: U_def)
    show ?thesis
    proof (cases "J \<le> ?iou x")
      case True
      have cs': "cs = filter (\<lambda>x. J \<le> ?iou x) pre @ x # filter (\<lambda>x. J \<le> ?iou x) post"
        using True by (simp add: cs b(1))
      have "Max (set (map ?iou cs)) = ?iou x"
      proof (rule Max_eqI)
        show "finite (set (map ?iou cs))" by simp
        show "?iou x \<in> set (map ?iou cs)" by (simp add: cs')
        fix v assume "v \<in> set (map ?iou cs)"
        then show "v \<le> ?iou x" using b(4,5) by (auto simp: cs')
      qed
      moreover have "filter (\<lambda>y. ?iou y = ?iou x) (filter (\<lambda>x. J \<le> ?iou x) pre) = []"
        using b(4) by (auto simp: filter_empty_conv)
      ultimately have "filter (\<lambda>y. ?iou y = Max (set (map ?iou cs))) cs
          = x # filter (\<lambda>y. ?iou y = ?iou x) (filter (\<lambda>x. J \<le> ?iou x) post)"
        by (simp add: cs')
      with True b(2,3) free show ?thesis by (auto simp: choice)
    next
      case False
      with b(4,5) have "cs = []" by (auto simp: cs b(1) filter_empty_conv)
      with False b(2) show ?thesis by (simp add: choice)
    qed
  qed
qed

lemma match_loop_greedy:
  "0 < J \<Longrightarrow>
   match_loop J gts ps (tp, fp, fn, Some ` M)
     = (case spec_match J gts ps (tp, fp, fn, M) of (a, b, c, M') \<Rightarrow> (a, b, c, Some ` M'))"
proof (induction ps arbitrary: tp fp fn M)
  case Nil
  then show ?case by simp
next
  case (Cons p ps)
  obtain pred s where p: "p = (pred, s)" by (cases p)
  obtain bi bg where fb: "find_best pred (Some ` M) (enumerate 0 gts) (0, None) = (bi, bg)"
    by (cases "find_best pred (Some ` M) (enumerate 0 gts) (0, None)")
  note ag = spec_choice_agrees [OF Cons.prems fb]
  show ?case
  proof (cases "bi \<ge> J \<and> bg \<notin> Some ` M")
    case True
    with ag obtain idx where idx: "bg = Some idx" "spec_choice J pred M gts = Some idx"
      by (cases bg) auto
    have ins: "insert (Some idx) (Some ` M) = Some ` insert idx M" by simp
    from True fb idx p show ?thesis
      by (simp add: ins Cons.IH [OF Cons.prems] del: image_insert)
  next
    case False
    with ag have none: "spec_choice J pred M gts = None" by auto
    from False fb none p show ?thesis
      by (auto simp: Cons.IH [OF Cons.prems] simp del: image_insert)
  qed
qed

lemma spec_match_no_ground_truth:
  "spec_match J [] ps (tp, fp, fn, M) = (tp, fp + int (length ps), fn, M)"
proof (induction ps arbitrary: fp)
  case Nil
  then show ?case by simp
next
  case (Cons p ps)
  obtain pred s where p: "p = (pred, s)" by (cases p)
  have "spec_choice J pred M [] = None"
    by (simp add: spec_choice_def spec_candidates_def enumerate_eq_zip)
  then show ?case by (simp add: p Cons.IH)
qed

text \<open>
  For a positive \<open>Jaccard_min\<close>, \<open>evaluate_image\<close> is the greedy matching of the
  specification: the predictions that pass the filter, by descending score, each
  matched with the unmatched ground-truth box of highest IoU among those reaching
  \<open>Jaccard_min\<close> (the first one on ties), or counted as a false positive. The
  early return for an empty list gives the same counts.
\<close>

theorem evaluate_image_greedy:
  assumes "0 < Jaccard_min"
  shows "evaluate_image annotations predictions thr Jaccard_min
     = (case pred_boxes_of thr predictions of
          Inl e \<Rightarrow> Inl e
        | Inr unsorted \<Rightarrow>
            (case spec_match Jaccard_min (map region annotations) (sorted_reverse snd unsorted)
                    (0, 0, int (length annotations), {}) of
               (tp, fp, fn, matched) \<Rightarrow> Inr (tp, fn, fp)))"
proof (cases "pred_boxes_of thr predictions")
  case (Inl e)
  then show ?thesis by (simp add: evaluate_image_def)
next
  case (Inr unsorted)
  define pb where "pb = sorted_reverse snd unsorted"
  have ml: "match_loop Jaccard_min (map region annotations) pb (0, 0, int (length annotations), {})
      = (case spec_match Jaccard_min (map region annotations) pb
                (0, 0, int (length annotations), {}) of
           (a, b, c, M') \<Rightarrow> (a, b, c, Some ` M'))"
    using match_loop_greedy [OF assms, of "map region annotations" pb 0 0
        "int (length annotations)" "{}"] by simp
  show ?thesis
  proof (cases "annotations = [] \<or> pb = []")
    case True
    then show ?thesis
    proof
      assume "annotations = []"
      then show ?thesis
        by (simp add: evaluate_image_def Inr spec_match_no_ground_truth pb_def [symmetric])
    next
      assume "pb = []"
      then show ?thesis
        by (simp add: evaluate_image_def Inr pb_def [symmetric])
    qed
  next
    case False
    then show ?thesis
      by (simp add: evaluate_image_def Inr pb_def [symmetric] ml split: prod.splits)
  qed
qed

text \<open>
  Scenario 4 for a positive \<open>Jaccard_min\<close>: two predictions of different scores on
  one ground-truth box give one true positive and one false positive.
\<close>

theorem evaluate_image_two_predictions_one_ground_truth:
  assumes "0 < Jaccard_min" and "s1 \<noteq> s2" and "thr \<le> s1" and "thr \<le> s2"
    and "Jaccard_min \<le> calculate_iou p1 g" and "Jaccard_min \<le> calculate_iou p2 g"
  shows "evaluate_image [\<lparr>region = g, score = sg\<rparr>]
           [\<lparr>region = p1, score = Some s1\<rparr>, \<lparr>region = p2, score = Some s2\<rparr>] thr Jaccard_min
         = Inr (1, 0, 1)"
proof (cases "s1 < s2")
  case True
  with assms show ?thesis
    by (simp add: evaluate_image_def passes_threshold_def sorted_reverse_def enumerate_eq_zip)
next
  case False
  with assms show ?thesis
    by (simp add: evaluate_image_def passes_threshold_def sorted_reverse_def enumerate_eq_zip)
qed

text \<open>
  An instance: the first prediction takes the ground-truth box, the second is
  far from it, the third overlaps it but finds it matched.
\<close>

theorem evaluate_image_greedy_witness:
  "(0::real) < 1/2
   \<and> evaluate_image [\<lparr>region = \<lparr>xmin = 0, ymin = 0, xmax = 10, ymax = 10\<rparr>, score = None\<rparr>]
     [\<lparr>region = \<lparr>xmin = 0, ymin = 0, xmax = 10, ymax = 10\<rparr>, score = Some (9/10)\<rparr>,
      \<lparr>region = \<lparr>xmin = 50, ymin = 50, xmax = 60, ymax = 60\<rparr>, score = Some (8/10)\<rparr>,
      \<lparr>region = \<lparr>xmin = 0, ymin = 0, xmax = 10, ymax = 9\<rparr>, score = Some (7/10)\<rparr>] (1/2) (1/2)
     = Inr (1, 0, 2)"
proof -
  have pos: "(0::real) < 1/2" by simp
  have spec: "(case pred_boxes_of (1/2)
     [\<lparr>region = \<lparr>xmin = 0, ymin = 0, xmax = 10, ymax = 10\<rparr>, score = Some (9/10)\<rparr>,
      \<lparr>region = \<lparr>xmin = 50, ymin = 50, xmax = 60, ymax = 60\<rparr>, score = Some (8/10)\<rparr>,
      \<lparr>region = \<lparr>xmin = 0, ymin = 0, xmax = 10, ymax = 9\<rparr>, score = Some (7/10)\<rparr>] of
          Inl e \<Rightarrow> Inl e
        | Inr unsorted \<Rightarrow>
            (case spec_match (1/2) (map region [\<lparr>region = \<lparr>xmin = 0, ymin = 0, xmax = 10, ymax = 10\<rparr>, score = None\<rparr>])
                    (sorted_reverse snd unsorted)
                    (0, 0, int (length [\<lparr>region = \<lparr>xmin = 0, ymin = 0, xmax = 10, ymax = 10\<rparr>, score = None\<rparr>]), {}) of
               (tp, fp, fn, matched) \<Rightarrow> Inr (tp, fn, fp)))
      = Inr (1, 0, 2)"
    by code_simp
  from evaluate_image_greedy [OF pos, of
     "[\<lparr>region = \<lparr>xmin = 0, ymin = 0, xmax = 10, ymax = 10\<rparr>, score = None\<rparr>]"
     "[\<lparr>region = \<lparr>xmin = 0, ymin = 0, xmax = 10, ymax = 10\<rparr>, score = Some (9/10)\<rparr>,
      \<lparr>region = \<lparr>xmin = 50, ymin = 50, xmax = 60, ymax = 60\<rparr>, score = Some (8/10)\<rparr>,
      \<lparr>region = \<lparr>xmin = 0, ymin = 0, xmax = 10, ymax = 9\<rparr>, score = Some (7/10)\<rparr>]" "1/2"] spec pos
  show ?thesis by simp
qed

text \<open>An instance: both predictions coincide with the ground-truth box.\<close>

theorem evaluate_image_two_predictions_one_ground_truth_witness:
  "(0::real) < 1/2 \<and> (9/10::real) \<noteq> 8/10 \<and> (1/2::real) \<le> 9/10 \<and> (1/2::real) \<le> 8/10
   \<and> 1/2 \<le> calculate_iou \<lparr>xmin = 0, ymin = 0, xmax = 10, ymax = 10\<rparr> \<lparr>xmin = 0, ymin = 0, xmax = 10, ymax = 10\<rparr>
   \<and> evaluate_image [\<lparr>region = \<lparr>xmin = 0, ymin = 0, xmax = 10, ymax = 10\<rparr>, score = None\<rparr>]
        [\<lparr>region = \<lparr>xmin = 0, ymin = 0, xmax = 10, ymax = 10\<rparr>, score = Some (9/10)\<rparr>,
         \<lparr>region = \<lparr>xmin = 0, ymin = 0, xmax = 10, ymax = 10\<rparr>, score = Some (8/10)\<rparr>] (1/2) (1/2)
      = Inr (1, 0, 1)"
proof -
  have iou: "1/2 \<le> calculate_iou \<lparr>xmin = 0, ymin = 0, xmax = 10, ymax = 10\<rparr> \<lparr>xmin = 0, ymin = 0, xmax = 10, ymax = 10\<rparr>"
    by (simp add: calculate_iou_def union_area_def box_area_def intersection_area_def)
  from evaluate_image_two_predictions_one_ground_truth [of "1/2" "9/10" "8/10" "1/2"
      "\<lparr>xmin = 0, ymin = 0, xmax = 10, ymax = 10\<rparr>" "\<lparr>xmin = 0, ymin = 0, xmax = 10, ymax = 10\<rparr>" "\<lparr>xmin = 0, ymin = 0, xmax = 10, ymax = 10\<rparr>" None] iou
  show ?thesis by simp
qed

text \<open>
  Claim C6. \<open>evaluate_pr_naive\<close> pairs the images of the two documents by position
  (\<open>zip\<close>), \<open>evaluate_pr\<close> by location. On a ground-truth image \<open>a\<close> and a prediction
  image \<open>b\<close> holding the same box the two sweeps return different curves.
\<close>

theorem evaluate_pr_differs_from_naive:
  "evaluate_pr
     \<lparr>images = [\<lparr>location = ''a'', annotated_regions =
        [\<lparr>region = \<lparr>xmin = 0, ymin = 0, xmax = 10, ymax = 10\<rparr>, score = None\<rparr>]\<rparr>]\<rparr>
     \<lparr>images = [\<lparr>location = ''b'', annotated_regions =
        [\<lparr>region = \<lparr>xmin = 0, ymin = 0, xmax = 10, ymax = 10\<rparr>, score = Some 1\<rparr>]\<rparr>]\<rparr>
     1 (1/2)
   = Inr [\<lparr>precision = 0, recall = 0, threshold = 0\<rparr>,
          \<lparr>precision = 0, recall = 0, threshold = 1\<rparr>]
   \<and> evaluate_pr_naive
     \<lparr>images = [\<lparr>location = ''a'', annotated_regions =
        [\<lparr>region = \<lparr>xmin = 0, ymin = 0, xmax = 10, ymax = 10\<rparr>, score = None\<rparr>]\<rparr>]\<rparr>
     \<lparr>images = [\<lparr>location = ''b'', annotated_regions =
        [\<lparr>region = \<lparr>xmin = 0, ymin = 0, xmax = 10, ymax = 10\<rparr>, score = Some 1\<rparr>]\<rparr>]\<rparr>
     1 (1/2)
   = Inr [\<lparr>precision = 1, recall = 1, threshold = 0\<rparr>,
          \<lparr>precision = 1, recall = 1, threshold = 1\<rparr>]"
  by code_simp

subsection \<open>Monotonicity in the score threshold\<close>

lemma sorted_reverse_filter:
  "sorted_reverse key (filter P xs) = filter P (sorted_reverse key xs)"
proof -
  have "sorted_reverse key (filter P xs) = rev (sort_key key (filter P (rev xs)))"
    by (simp add: sorted_reverse_def rev_filter)
  also have "\<dots> = rev (filter P (sort_key key (rev xs)))"
    by (simp only: filter_sort)
  also have "\<dots> = filter P (sorted_reverse key xs)"
    by (simp add: sorted_reverse_def rev_filter)
  finally show ?thesis .
qed

lemma sorted_reverse_descending:
  "sorted_wrt (\<lambda>x y. key y \<le> key x) (sorted_reverse key xs)"
proof -
  have "sorted_wrt (\<lambda>x y. key x \<le> key y) (sort_key key (rev xs))"
    using sorted_sort_key [of key "rev xs"] by (simp add: sorted_map)
  then show ?thesis
    by (simp add: sorted_reverse_def sorted_wrt_rev)
qed

lemma descending_split:
  "sorted_wrt (\<lambda>x y. key y \<le> key x) ys \<Longrightarrow>
     ys = filter (\<lambda>x. (t::real) \<le> key x) ys @ filter (\<lambda>x. \<not> t \<le> key x) ys"
proof (induction ys)
  case Nil
  then show ?case by simp
next
  case (Cons y ys)
  then have below: "\<forall>x\<in>set ys. key x \<le> key y" and rest: "sorted_wrt (\<lambda>x y. key y \<le> key x) ys"
    by simp_all
  show ?case
  proof (cases "t \<le> key y")
    case True
    with Cons.IH [OF rest] show ?thesis by simp
  next
    case False
    with below have "\<forall>x\<in>set ys. \<not> t \<le> key x" by fastforce
    then have "filter (\<lambda>x. t \<le> key x) ys = []" "filter (\<lambda>x. \<not> t \<le> key x) ys = ys"
      by (simp_all add: filter_empty_conv filter_id_conv)
    with False show ?thesis by simp
  qed
qed

lemma pred_boxes_of_mono:
  "pred_boxes_of t1 rs = Inr p1 \<Longrightarrow> t1 \<le> t2 \<Longrightarrow>
     pred_boxes_of t2 rs = Inr (filter (\<lambda>p. t2 \<le> snd p) p1)"
proof (induction rs arbitrary: p1)
  case Nil
  then show ?case by simp
next
  case (Cons r rs)
  show ?case
  proof (cases "score r")
    case None
    with Cons.prems have "\<not> passes_threshold t1 r"
      by (auto split: if_splits)
    with None Cons.prems have "\<not> passes_threshold t2 r" "pred_boxes_of t1 rs = Inr p1"
      by (auto simp: passes_threshold_def)
    with Cons.IH [of p1] Cons.prems show ?thesis by simp
  next
    case (Some s)
    show ?thesis
    proof (cases "t1 \<le> s")
      case True
      with Some Cons.prems obtain p1' where p1': "pred_boxes_of t1 rs = Inr p1'" "p1 = (region r, s) # p1'"
        by (cases "pred_boxes_of t1 rs") (auto simp: passes_threshold_def)
      from Cons.IH [OF p1'(1) Cons.prems(2)] Some p1'(2) show ?thesis
        by (simp add: passes_threshold_def)
    next
      case False
      with Some Cons.prems have "pred_boxes_of t1 rs = Inr p1" "\<not> t2 \<le> s"
        by (auto simp: passes_threshold_def)
      with Cons.IH [of p1] Cons.prems(2) Some show ?thesis
        by (simp add: passes_threshold_def)
    qed
  qed
qed

lemma match_loop_append:
  "match_loop J gts (xs @ ys) st = match_loop J gts ys (match_loop J gts xs st)"
proof (induction xs arbitrary: st)
  case Nil
  then show ?case by simp
next
  case (Cons p xs)
  obtain pred s where p: "p = (pred, s)" by (cases p)
  obtain tp fp fn m where st: "st = (tp, fp, fn, m)" by (cases st)
  show ?case
    unfolding p st by (simp add: Cons.IH split: prod.splits)
qed

lemma match_loop_tp_mono:
  "match_loop J gts ps (tp, fp, fn, m) = (tp', fp', fn', m') \<Longrightarrow> tp \<le> tp'"
proof (induction ps arbitrary: tp fp fn m)
  case Nil
  then show ?case by simp
next
  case (Cons p ps)
  obtain pred s where p: "p = (pred, s)" by (cases p)
  obtain bi bg where fb: "find_best pred m (enumerate 0 gts) (0, None) = (bi, bg)"
    by (cases "find_best pred m (enumerate 0 gts) (0, None)")
  show ?case
  proof (cases "bi \<ge> J \<and> bg \<notin> m")
    case True
    with Cons.prems p fb
    have "match_loop J gts ps (tp + 1, fp, fn - 1, insert bg m) = (tp', fp', fn', m')" by simp
    from Cons.IH [OF this] show ?thesis by simp
  next
    case False
    with Cons.prems p fb
    have "match_loop J gts ps (tp, fp + 1, fn, m) = (tp', fp', fn', m')" by auto
    from Cons.IH [OF this] show ?thesis by simp
  qed
qed

lemma passes_threshold_mono: "t1 \<le> t2 \<Longrightarrow> passes_threshold t2 r \<Longrightarrow> passes_threshold t1 r"
  by (simp add: passes_threshold_def)

lemma filter_passes_length_mono:
  "t1 \<le> t2 \<Longrightarrow>
     length (filter (passes_threshold t2) rs) \<le> length (filter (passes_threshold t1) rs)"
  by (induction rs) (auto dest: passes_threshold_mono)

text \<open>
  Raising the threshold keeps a prefix of the sorted predictions, and the matching
  loop only adds to the true positives, so they cannot grow with the threshold.
\<close>

lemma evaluate_image_tp_mono:
  assumes le: "t1 \<le> t2"
    and e1: "evaluate_image annotations predictions t1 J = Inr (tp1, fn1, fp1)"
  shows "\<exists>tp2 fn2 fp2. evaluate_image annotations predictions t2 J = Inr (tp2, fn2, fp2)
           \<and> tp2 \<le> tp1"
proof -
  from e1 obtain p1 where p1: "pred_boxes_of t1 predictions = Inr p1"
    by (cases "pred_boxes_of t1 predictions") (auto simp: evaluate_image_def)
  define p2 where "p2 = filter (\<lambda>p. t2 \<le> snd p) p1"
  have p2: "pred_boxes_of t2 predictions = Inr p2"
    unfolding p2_def using pred_boxes_of_mono [OF p1 le] .
  define ys where "ys = sorted_reverse snd p1"
  define xs where "xs = sorted_reverse snd p2"
  define zs where "zs = filter (\<lambda>p. \<not> t2 \<le> snd p) ys"
  have xs: "xs = filter (\<lambda>p. t2 \<le> snd p) ys"
    by (simp add: xs_def ys_def p2_def sorted_reverse_filter)
  have split: "ys = xs @ zs"
    unfolding xs zs_def
    using descending_split [OF sorted_reverse_descending [of snd p1], of t2] by (simp add: ys_def)
  define gts where "gts = map region annotations"
  define st0 :: "int \<times> int \<times> int \<times> nat option set" where "st0 = (0, 0, int (length gts), {})"
  obtain a b c m where mid: "match_loop J gts xs st0 = (a, b, c, m)"
    by (cases "match_loop J gts xs st0") 
  obtain a' b' c' m' where fin: "match_loop J gts zs (a, b, c, m) = (a', b', c', m')"
    by (cases "match_loop J gts zs (a, b, c, m)")
  have whole: "match_loop J gts ys st0 = (a', b', c', m')"
    by (simp add: split match_loop_append mid fin)
  have a0: "0 \<le> a" using match_loop_tp_mono [OF mid [unfolded st0_def]] .
  have aa: "a \<le> a'" using match_loop_tp_mono [OF fin] .
  show ?thesis
  proof (cases "gts = [] \<or> ys = []")
    case True
    then have "gts = [] \<or> xs = []" using split by auto
    with True e1 p1 p2 show ?thesis
      by (auto simp: evaluate_image_def gts_def ys_def xs_def)
  next
    case False
    with e1 p1 whole have tp1: "tp1 = a'"
      by (auto simp: evaluate_image_def gts_def ys_def st0_def)
    show ?thesis
    proof (cases "xs = []")
      case True
      with p2 have "evaluate_image annotations predictions t2 J
          = Inr (0, int (length gts), int (length xs))"
        by (simp add: evaluate_image_def gts_def xs_def)
      with tp1 a0 aa show ?thesis by auto
    next
      case nonempty: False
      with False p2 mid have "evaluate_image annotations predictions t2 J = Inr (a, c, b)"
        by (auto simp: evaluate_image_def gts_def xs_def st0_def)
      with tp1 aa show ?thesis by auto
    qed
  qed
qed

text \<open>
  Claim C8. For fixed ground truth, predictions and \<open>Jaccard_min\<close>, and thresholds
  \<open>t1 \<le> t2\<close>: the number of predictions passing the filter at \<open>t2\<close> is at most that
  at \<open>t1\<close>, and where \<open>evaluate_image\<close> returns at \<open>t1\<close> it also returns at \<open>t2\<close>,
  with no more true positives.
\<close>

theorem evaluate_image_monotone:
  assumes "t1 \<le> t2"
    and "evaluate_image annotations predictions t1 J = Inr (tp1, fn1, fp1)"
  shows "length (filter (passes_threshold t2) predictions)
           \<le> length (filter (passes_threshold t1) predictions)
       \<and> (\<exists>tp2 fn2 fp2. evaluate_image annotations predictions t2 J = Inr (tp2, fn2, fp2)
             \<and> tp2 \<le> tp1)"
  using filter_passes_length_mono [OF assms(1)] evaluate_image_tp_mono [OF assms] by blast

text \<open>
  An instance: at threshold \<open>0.5\<close> two of three predictions pass and one matches; at
  \<open>0.85\<close> one passes.
\<close>

theorem evaluate_image_monotone_witness:
  "(1/2::real) \<le> 17/20
   \<and> evaluate_image [\<lparr>region = \<lparr>xmin = 0, ymin = 0, xmax = 10, ymax = 10\<rparr>, score = None\<rparr>]
     [\<lparr>region = \<lparr>xmin = 0, ymin = 0, xmax = 10, ymax = 10\<rparr>, score = Some (9/10)\<rparr>,
      \<lparr>region = \<lparr>xmin = 50, ymin = 50, xmax = 60, ymax = 60\<rparr>, score = Some (8/10)\<rparr>,
      \<lparr>region = \<lparr>xmin = 0, ymin = 0, xmax = 10, ymax = 10\<rparr>, score = Some (1/10)\<rparr>]
     (1/2) (1/2) = Inr (1, 0, 1)
   \<and> length (filter (passes_threshold (17/20))
     [\<lparr>region = \<lparr>xmin = 0, ymin = 0, xmax = 10, ymax = 10\<rparr>, score = Some (9/10)\<rparr>,
      \<lparr>region = \<lparr>xmin = 50, ymin = 50, xmax = 60, ymax = 60\<rparr>, score = Some (8/10)\<rparr>,
      \<lparr>region = \<lparr>xmin = 0, ymin = 0, xmax = 10, ymax = 10\<rparr>, score = Some (1/10)\<rparr>])
     \<le> length (filter (passes_threshold (1/2))
     [\<lparr>region = \<lparr>xmin = 0, ymin = 0, xmax = 10, ymax = 10\<rparr>, score = Some (9/10)\<rparr>,
      \<lparr>region = \<lparr>xmin = 50, ymin = 50, xmax = 60, ymax = 60\<rparr>, score = Some (8/10)\<rparr>,
      \<lparr>region = \<lparr>xmin = 0, ymin = 0, xmax = 10, ymax = 10\<rparr>, score = Some (1/10)\<rparr>])
   \<and> (\<exists>tp2 fn2 fp2.
        evaluate_image [\<lparr>region = \<lparr>xmin = 0, ymin = 0, xmax = 10, ymax = 10\<rparr>, score = None\<rparr>]
          [\<lparr>region = \<lparr>xmin = 0, ymin = 0, xmax = 10, ymax = 10\<rparr>, score = Some (9/10)\<rparr>,
           \<lparr>region = \<lparr>xmin = 50, ymin = 50, xmax = 60, ymax = 60\<rparr>, score = Some (8/10)\<rparr>,
           \<lparr>region = \<lparr>xmin = 0, ymin = 0, xmax = 10, ymax = 10\<rparr>, score = Some (1/10)\<rparr>]
          (17/20) (1/2) = Inr (tp2, fn2, fp2) \<and> tp2 \<le> 1)"
proof -
  have le: "(1/2::real) \<le> 17/20" by simp
  have e: "evaluate_image [\<lparr>region = \<lparr>xmin = 0, ymin = 0, xmax = 10, ymax = 10\<rparr>, score = None\<rparr>]
     [\<lparr>region = \<lparr>xmin = 0, ymin = 0, xmax = 10, ymax = 10\<rparr>, score = Some (9/10)\<rparr>,
      \<lparr>region = \<lparr>xmin = 50, ymin = 50, xmax = 60, ymax = 60\<rparr>, score = Some (8/10)\<rparr>,
      \<lparr>region = \<lparr>xmin = 0, ymin = 0, xmax = 10, ymax = 10\<rparr>, score = Some (1/10)\<rparr>]
     (1/2) (1/2) = Inr (1, 0, 1)"
    by code_simp
  from evaluate_image_monotone [OF le e] le e show ?thesis by blast
qed

subsection \<open>The threshold sweep: recall and precision\<close>

lemma pred_boxes_of_scored:
  "pred_boxes_of thr (map (\<lambda>(b, s). \<lparr>region = b, score = Some s\<rparr>) ps)
     = Inr (filter (\<lambda>(b, s). s \<ge> thr) ps)"
  by (induction ps) (auto simp: passes_threshold_def)

lemma evaluate_image_prefiltered:
  "evaluate_image gt (map (\<lambda>(b, s). \<lparr>region = b, score = Some s\<rparr>) (filter (\<lambda>(b, s). s \<ge> thr) ps)) thr J
     = evaluate_image gt (map (\<lambda>(b, s). \<lparr>region = b, score = Some s\<rparr>) ps) thr J"
  by (simp add: evaluate_image_def pred_boxes_of_scored)

lemma evaluate_image_scored_returns:
  "\<exists>tp fn fp. evaluate_image gt (map (\<lambda>(b, s). \<lparr>region = b, score = Some s\<rparr>) ps) thr J
     = Inr (tp, fn, fp)"
  by (auto simp: evaluate_image_def pred_boxes_of_scored Let_def split: prod.splits)

lemma pr_totals_returns:
  "\<exists>tp fp fn. pr_totals thr J d gs acc = Inr (tp, fp, fn)"
proof (induction gs arbitrary: acc)
  case Nil
  then show ?case by (cases acc) auto
next
  case (Cons g gs)
  obtain a b c where acc: "acc = (a, b, c)" by (cases acc)
  define ps where "ps = (case d (location g) of None \<Rightarrow> [] | Some ps \<Rightarrow> ps)"
  obtain tp fn fp where e: "evaluate_image (annotated_regions g)
      (map (\<lambda>(b, s). \<lparr>region = b, score = Some s\<rparr>) (filter (\<lambda>(b, s). s \<ge> thr) ps)) thr J = Inr (tp, fn, fp)"
    using evaluate_image_scored_returns by blast
  from Cons.IH [of "(a + tp, b + fp, c + fn)"] show ?case
    unfolding acc by (simp add: e [unfolded ps_def])
qed

lemma evaluate_image_ground_truth:
  assumes "evaluate_image annotations predictions thr J = Inr (tp, fn, fp)"
  shows "tp + fn = int (length annotations)"
proof -
  from assms obtain unsorted where u: "pred_boxes_of thr predictions = Inr unsorted"
    by (cases "pred_boxes_of thr predictions") (auto simp: evaluate_image_def)
  show ?thesis
  proof (cases "annotations = [] \<or> unsorted = []")
    case True
    with assms u show ?thesis
      by (auto simp: evaluate_image_def sorted_reverse_Nil_iff)
  next
    case False
    obtain tp' fp' fn' m' where
      ml: "match_loop J (map region annotations) (sorted_reverse snd unsorted)
             (0, 0, int (length annotations), {}) = (tp', fp', fn', m')"
      by (cases "match_loop J (map region annotations) (sorted_reverse snd unsorted)
             (0, 0, int (length annotations), {})") auto
    with assms u False have "tp = tp'" "fn = fn'"
      by (auto simp: evaluate_image_def sorted_reverse_Nil_iff)
    with match_loop_counts [OF ml] show ?thesis by simp
  qed
qed

lemma pr_totals_ground_truth:
  "pr_totals thr J d gs (a, b, c) = Inr (tp, fp, fn) \<Longrightarrow>
     tp + fn = a + c + int (length (concat (map annotated_regions gs)))"
proof (induction gs arbitrary: a b c)
  case Nil
  then show ?case by simp
next
  case (Cons g gs)
  define ps where "ps = (case d (location g) of None \<Rightarrow> [] | Some ps \<Rightarrow> ps)"
  obtain tp1 fn1 fp1 where e: "evaluate_image (annotated_regions g)
      (map (\<lambda>(b, s). \<lparr>region = b, score = Some s\<rparr>) (filter (\<lambda>(b, s). s \<ge> thr) ps)) thr J = Inr (tp1, fn1, fp1)"
    using evaluate_image_scored_returns by blast
  from Cons.prems have "pr_totals thr J d gs (a + tp1, b + fp1, c + fn1) = Inr (tp, fp, fn)"
    by (simp add: e [unfolded ps_def])
  from Cons.IH [OF this] evaluate_image_ground_truth [OF e] show ?case by simp
qed

lemma pr_totals_tp_mono:
  "t1 \<le> t2 \<Longrightarrow> pr_totals t1 J d gs (a1, b1, c1) = Inr (tp1, fp1, fn1) \<Longrightarrow>
     pr_totals t2 J d gs (a2, b2, c2) = Inr (tp2, fp2, fn2) \<Longrightarrow> a2 \<le> a1 \<Longrightarrow> tp2 \<le> tp1"
proof (induction gs arbitrary: a1 b1 c1 a2 b2 c2)
  case Nil
  then show ?case by simp
next
  case (Cons g gs)
  define ps where "ps = (case d (location g) of None \<Rightarrow> [] | Some ps \<Rightarrow> ps)"
  define regs where "regs = map (\<lambda>(b, s). \<lparr>region = b, score = Some s\<rparr>) ps"
  obtain x1 y1 z1 where e1: "evaluate_image (annotated_regions g) regs t1 J = Inr (x1, y1, z1)"
    unfolding regs_def using evaluate_image_scored_returns by blast
  from evaluate_image_tp_mono [OF Cons.prems(1) e1]
  obtain x2 y2 z2 where e2: "evaluate_image (annotated_regions g) regs t2 J = Inr (x2, y2, z2)"
    and le: "x2 \<le> x1" by blast
  from Cons.prems(2) e1
  have r1: "pr_totals t1 J d gs (a1 + x1, b1 + z1, c1 + y1) = Inr (tp1, fp1, fn1)"
    by (simp add: evaluate_image_prefiltered ps_def [symmetric] regs_def [symmetric])
  from Cons.prems(3) e2
  have r2: "pr_totals t2 J d gs (a2 + x2, b2 + z2, c2 + y2) = Inr (tp2, fp2, fn2)"
    by (simp add: evaluate_image_prefiltered ps_def [symmetric] regs_def [symmetric])
  from Cons.IH [OF Cons.prems(1) r1 r2] le Cons.prems(4) show ?case by simp
qed

lemma pr_record_recall_mono:
  assumes "tp2 \<le> tp1" "tp1 + fn1 = tp2 + fn2"
  shows "recall (pr_record tp2 fp2 fn2 t2) \<le> recall (pr_record tp1 fp1 fn1 t1)"
  using assms by (auto simp: pr_record_def divide_right_mono)

lemma pr_sweep_elements:
  "pr_sweep J d gs ths = Inr rs \<Longrightarrow> r \<in> set rs \<Longrightarrow>
     \<exists>tp fp fn. pr_totals (threshold r) J d gs (0, 0, 0) = Inr (tp, fp, fn)
        \<and> r = pr_record tp fp fn (threshold r)"
proof (induction ths arbitrary: rs)
  case Nil
  then show ?case by simp
next
  case (Cons t ths)
  from Cons.prems(1) obtain tp fp fn rs' where
    tot: "pr_totals t J d gs (0, 0, 0) = Inr (tp, fp, fn)"
    and rest: "pr_sweep J d gs ths = Inr rs'"
    and rs: "rs = pr_record tp fp fn t # rs'"
    by (auto split: sum.splits)
  show ?case
  proof (cases "r = pr_record tp fp fn t")
    case True
    then have "threshold r = t" by (simp add: pr_record_def)
    with True tot show ?thesis by auto
  next
    case False
    with Cons.prems(2) rs have "r \<in> set rs'" by simp
    from Cons.IH [OF rest this] show ?thesis .
  qed
qed

text \<open>
  Claim C9, as far as it holds. In the list returned by \<open>evaluate_pr\<close> the thresholds
  ascend and the recall does not increase from one record to a later one. (The
  precision can decrease, as the example after the instance shows.)
\<close>

theorem evaluate_pr_recall_antitone:
  assumes run: "evaluate_pr annotations predictions N J = Inr rs"
    and ij: "i \<le> j" "j < length rs"
  shows "threshold (rs ! i) \<le> threshold (rs ! j) \<and> recall (rs ! j) \<le> recall (rs ! i)"
proof -
  from run obtain ths d rs0 where
    sweep: "pr_sweep J d (images annotations) ths = Inr rs0"
    and rs: "rs = sort_key threshold rs0"
    by (auto simp: evaluate_pr_def split: sum.splits)
  have srt: "sorted (map threshold rs)" by (simp add: rs)
  from ij have i: "i < length rs" by simp
  have le: "threshold (rs ! i) \<le> threshold (rs ! j)"
    using sorted_nth_mono [OF srt, of i j] ij i by simp
  have mem: "rs ! i \<in> set rs0" "rs ! j \<in> set rs0"
    using nth_mem [OF i] nth_mem [OF ij(2)] by (simp_all add: rs)
  from pr_sweep_elements [OF sweep mem(1)] obtain tp1 fp1 fn1 where
    t1: "pr_totals (threshold (rs ! i)) J d (images annotations) (0, 0, 0) = Inr (tp1, fp1, fn1)"
    and r1: "rs ! i = pr_record tp1 fp1 fn1 (threshold (rs ! i))" by blast
  from pr_sweep_elements [OF sweep mem(2)] obtain tp2 fp2 fn2 where
    t2: "pr_totals (threshold (rs ! j)) J d (images annotations) (0, 0, 0) = Inr (tp2, fp2, fn2)"
    and r2: "rs ! j = pr_record tp2 fp2 fn2 (threshold (rs ! j))" by blast
  have tp: "tp2 \<le> tp1" using pr_totals_tp_mono [OF le t1 t2] by simp
  have gt: "tp1 + fn1 = tp2 + fn2"
    using pr_totals_ground_truth [OF t1] pr_totals_ground_truth [OF t2] by simp
  have "recall (rs ! j) \<le> recall (rs ! i)"
    using pr_record_recall_mono [OF tp gt, of fp2 "threshold (rs ! j)" fp1 "threshold (rs ! i)"] r1 r2
    by simp
  with le show ?thesis by simp
qed

text \<open>
  An instance: one ground-truth box, a prediction of score \<open>0.9\<close> far from it and a
  prediction of score \<open>0.3\<close> on it, three thresholds.
\<close>

theorem evaluate_pr_recall_antitone_witness:
  "evaluate_pr
     \<lparr>images = [\<lparr>location = ''a'', annotated_regions =
        [\<lparr>region = \<lparr>xmin = 0, ymin = 0, xmax = 10, ymax = 10\<rparr>, score = None\<rparr>]\<rparr>]\<rparr>
     \<lparr>images = [\<lparr>location = ''a'', annotated_regions =
        [\<lparr>region = \<lparr>xmin = 50, ymin = 50, xmax = 60, ymax = 60\<rparr>, score = Some (9/10)\<rparr>,
         \<lparr>region = \<lparr>xmin = 0, ymin = 0, xmax = 10, ymax = 10\<rparr>, score = Some (3/10)\<rparr>]\<rparr>]\<rparr>
     2 (1/2)
   = Inr [\<lparr>precision = 1/2, recall = 1, threshold = 0\<rparr>,
          \<lparr>precision = 0, recall = 0, threshold = 1/2\<rparr>,
          \<lparr>precision = 0, recall = 0, threshold = 1\<rparr>]
   \<and> (0::nat) \<le> 1
   \<and> 1 < length [\<lparr>precision = 1/2, recall = 1, threshold = 0\<rparr>,
          \<lparr>precision = 0, recall = 0, threshold = 1/2\<rparr>,
          \<lparr>precision = 0, recall = 0, threshold = 1\<rparr>]
   \<and> threshold ([\<lparr>precision = 1/2, recall = 1, threshold = 0\<rparr>,
          \<lparr>precision = 0, recall = 0, threshold = 1/2\<rparr>,
          \<lparr>precision = 0, recall = 0, threshold = 1\<rparr>] ! 0) \<le> threshold ([\<lparr>precision = 1/2, recall = 1, threshold = 0\<rparr>,
          \<lparr>precision = 0, recall = 0, threshold = 1/2\<rparr>,
          \<lparr>precision = 0, recall = 0, threshold = 1\<rparr>] ! 1)
   \<and> recall ([\<lparr>precision = 1/2, recall = 1, threshold = 0\<rparr>,
          \<lparr>precision = 0, recall = 0, threshold = 1/2\<rparr>,
          \<lparr>precision = 0, recall = 0, threshold = 1\<rparr>] ! 1) \<le> recall ([\<lparr>precision = 1/2, recall = 1, threshold = 0\<rparr>,
          \<lparr>precision = 0, recall = 0, threshold = 1/2\<rparr>,
          \<lparr>precision = 0, recall = 0, threshold = 1\<rparr>] ! 0)"
proof -
  have run: "evaluate_pr
     \<lparr>images = [\<lparr>location = ''a'', annotated_regions =
        [\<lparr>region = \<lparr>xmin = 0, ymin = 0, xmax = 10, ymax = 10\<rparr>, score = None\<rparr>]\<rparr>]\<rparr>
     \<lparr>images = [\<lparr>location = ''a'', annotated_regions =
        [\<lparr>region = \<lparr>xmin = 50, ymin = 50, xmax = 60, ymax = 60\<rparr>, score = Some (9/10)\<rparr>,
         \<lparr>region = \<lparr>xmin = 0, ymin = 0, xmax = 10, ymax = 10\<rparr>, score = Some (3/10)\<rparr>]\<rparr>]\<rparr>
     2 (1/2)
   = Inr [\<lparr>precision = 1/2, recall = 1, threshold = 0\<rparr>,
          \<lparr>precision = 0, recall = 0, threshold = 1/2\<rparr>,
          \<lparr>precision = 0, recall = 0, threshold = 1\<rparr>]"
    by code_simp
  from evaluate_pr_recall_antitone [OF run, of 0 1] run show ?thesis by simp
qed

text \<open>
  Claim C9 as stated fails for the precision. One ground-truth box; a prediction
  of score \<open>1\<close> far from it and a prediction of score \<open>0.25\<close> on it. At threshold \<open>0\<close>
  the precision is \<open>1/2\<close>; at threshold \<open>0.5\<close> only the wrong prediction is left and
  the precision is \<open>0\<close>, with a non-zero denominator.
\<close>

theorem evaluate_pr_precision_not_monotone:
  "evaluate_pr
     \<lparr>images = [\<lparr>location = ''a'', annotated_regions =
        [\<lparr>region = \<lparr>xmin = 0, ymin = 0, xmax = 10, ymax = 10\<rparr>, score = None\<rparr>]\<rparr>]\<rparr>
     \<lparr>images = [\<lparr>location = ''a'', annotated_regions =
        [\<lparr>region = \<lparr>xmin = 50, ymin = 50, xmax = 60, ymax = 60\<rparr>, score = Some 1\<rparr>,
         \<lparr>region = \<lparr>xmin = 0, ymin = 0, xmax = 10, ymax = 10\<rparr>, score = Some (1/4)\<rparr>]\<rparr>]\<rparr>
     2 (1/2)
   = Inr [\<lparr>precision = 1/2, recall = 1, threshold = 0\<rparr>,
          \<lparr>precision = 0, recall = 0, threshold = 1/2\<rparr>,
          \<lparr>precision = 0, recall = 0, threshold = 1\<rparr>]"
  by code_simp

subsection \<open>The threshold sweep: pairing of the images\<close>

lemma sorted_reverse_idem:
  "sorted_reverse key (sorted_reverse key xs) = sorted_reverse key xs"
  by (simp add: sorted_reverse_def sort_key_id_if_sorted)

lemma scored_pairs_pred_boxes:
  "scored_pairs regs = Inr pairs \<Longrightarrow>
     pred_boxes_of thr regs = Inr (filter (\<lambda>(b, s). s \<ge> thr) pairs)"
proof (induction regs arbitrary: pairs)
  case Nil
  then show ?case by simp
next
  case (Cons r regs)
  from Cons.prems obtain s ps where s: "score r = Some s" and ps: "scored_pairs regs = Inr ps"
    and pairs: "pairs = (region r, s) # ps"
    by (auto split: option.splits sum.splits)
  from Cons.IH [OF ps] s pairs show ?case
    by (simp add: passes_threshold_def)
qed

lemma evaluate_image_presorted:
  assumes "scored_pairs regs = Inr pairs"
  shows "evaluate_image gt
           (map (\<lambda>(b, s). \<lparr>region = b, score = Some s\<rparr>)
              (filter (\<lambda>(b, s). s \<ge> thr) (sorted_reverse snd pairs))) thr J
         = evaluate_image gt regs thr J"
proof -
  have "sorted_reverse snd (filter (\<lambda>(b, s). s \<ge> thr) (sorted_reverse snd pairs))
      = sorted_reverse snd (filter (\<lambda>(b, s). s \<ge> thr) pairs)"
    by (simp add: sorted_reverse_filter sorted_reverse_idem)
  then show ?thesis
    by (simp add: evaluate_image_def pred_boxes_of_scored scored_pairs_pred_boxes [OF assms])
qed

lemma sorted_predictions_frame:
  "sorted_predictions imgs m = Inr d \<Longrightarrow> loc \<notin> location ` set imgs \<Longrightarrow> d loc = m loc"
proof (induction imgs arbitrary: m)
  case Nil
  then show ?case by simp
next
  case (Cons p imgs)
  from Cons.prems(1) obtain ps where
    "sorted_predictions imgs (m(location p \<mapsto> sorted_reverse snd ps)) = Inr d"
    by (auto split: sum.splits)
  from Cons.IH [OF this] Cons.prems(2) show ?case by auto
qed

lemma sorted_predictions_last:
  "sorted_predictions (pre @ p # post) m = Inr d \<Longrightarrow> location p \<notin> location ` set post \<Longrightarrow>
     \<exists>pairs. scored_pairs (annotated_regions p) = Inr pairs
        \<and> d (location p) = Some (sorted_reverse snd pairs)"
proof (induction pre arbitrary: m)
  case Nil
  from Nil(1) obtain ps where ps: "scored_pairs (annotated_regions p) = Inr ps"
    and rest: "sorted_predictions post (m(location p \<mapsto> sorted_reverse snd ps)) = Inr d"
    by (auto split: sum.splits)
  from sorted_predictions_frame [OF rest Nil(2)] ps show ?case by simp
next
  case (Cons q pre)
  from Cons.prems(1) obtain ps where
    "sorted_predictions (pre @ p # post) (m(location q \<mapsto> sorted_reverse snd ps)) = Inr d"
    by (auto split: sum.splits)
  from Cons.IH [OF this Cons.prems(2)] show ?case .
qed

lemma sorted_predictions_filter:
  "sorted_predictions imgs m = Inr d \<Longrightarrow> \<forall>loc\<in>L. m' loc = m loc \<Longrightarrow>
     \<exists>d'. sorted_predictions (filter (\<lambda>p. location p \<in> L) imgs) m' = Inr d'
        \<and> (\<forall>loc\<in>L. d' loc = d loc)"
proof (induction imgs arbitrary: m m')
  case Nil
  then show ?case by simp
next
  case (Cons p imgs)
  from Cons.prems(1) obtain ps where ps: "scored_pairs (annotated_regions p) = Inr ps"
    and rest: "sorted_predictions imgs (m(location p \<mapsto> sorted_reverse snd ps)) = Inr d"
    by (auto split: sum.splits)
  show ?case
  proof (cases "location p \<in> L")
    case True
    have "\<forall>loc\<in>L. (m'(location p \<mapsto> sorted_reverse snd ps)) loc
        = (m(location p \<mapsto> sorted_reverse snd ps)) loc"
      using Cons.prems(2) by simp
    from Cons.IH [OF rest this] obtain d' where
      "sorted_predictions (filter (\<lambda>p. location p \<in> L) imgs)
         (m'(location p \<mapsto> sorted_reverse snd ps)) = Inr d'"
      "\<forall>loc\<in>L. d' loc = d loc" by blast
    with True ps show ?thesis by auto
  next
    case False
    have "\<forall>loc\<in>L. m' loc = (m(location p \<mapsto> sorted_reverse snd ps)) loc"
      using Cons.prems(2) False by auto
    from Cons.IH [OF rest this] obtain d' where
      "sorted_predictions (filter (\<lambda>p. location p \<in> L) imgs) m' = Inr d'"
      "\<forall>loc\<in>L. d' loc = d loc" by blast
    with False show ?thesis by auto
  qed
qed

lemma pr_totals_cong:
  "\<forall>g\<in>set gs. d (location g) = d' (location g) \<Longrightarrow>
     pr_totals thr J d gs acc = pr_totals thr J d' gs acc"
proof (induction gs arbitrary: acc)
  case Nil
  then show ?case by (cases acc) simp
next
  case (Cons g gs)
  obtain a b c where acc: "acc = (a, b, c)" by (cases acc)
  from Cons.prems have here: "d (location g) = d' (location g)"
    and rest: "\<forall>g\<in>set gs. d (location g) = d' (location g)" by simp_all
  show ?case
    unfolding acc by (simp add: here Cons.IH [OF rest] split: sum.splits)
qed

lemma pr_sweep_cong:
  "\<forall>g\<in>set gs. d (location g) = d' (location g) \<Longrightarrow>
     pr_sweep J d gs ths = pr_sweep J d' gs ths"
  by (induction ths) (simp_all add: pr_totals_cong [of gs d d'] cong: sum.case_cong)

lemma evaluate_image_no_predictions:
  "evaluate_image gt [] thr J = Inr (0, int (length gt), 0)"
  by (simp add: evaluate_image_def sorted_reverse_def)

subsection \<open>The two sweeps on aligned documents\<close>

lemma scored_pairs_total:
  "list_all (\<lambda>r. score r \<noteq> None) rs \<Longrightarrow> \<exists>pairs. scored_pairs rs = Inr pairs"
  by (induction rs) auto

lemma naive_pred_boxes_total:
  "list_all (\<lambda>r. score r \<noteq> None) rs \<Longrightarrow> \<exists>pairs. naive_pred_boxes thr rs = Inr pairs"
  by (induction rs) auto

lemma sorted_predictions_total:
  "list_all (\<lambda>img. list_all (\<lambda>r. score r \<noteq> None) (annotated_regions img)) imgs \<Longrightarrow>
     \<exists>d. sorted_predictions imgs m = Inr d"
proof (induction imgs arbitrary: m)
  case Nil
  then show ?case by simp
next
  case (Cons p imgs)
  then obtain pairs where "scored_pairs (annotated_regions p) = Inr pairs"
    using scored_pairs_total by auto
  with Cons show ?case by simp
qed

lemma totals_aligned:
  assumes "length gs = length ps"
    and "\<forall>(g, p)\<in>set (zip gs ps). location g = location p
           \<and> list_all (\<lambda>r. score r \<noteq> None) (annotated_regions p)
           \<and> (\<exists>pairs. scored_pairs (annotated_regions p) = Inr pairs
                 \<and> d (location p) = Some (sorted_reverse snd pairs))"
  shows "naive_totals thr J (zip gs ps) acc = pr_totals thr J d gs acc"
  using assms
proof (induction gs ps arbitrary: acc rule: list_induct2)
  case Nil
  then show ?case by (cases acc) simp
next
  case (Cons g gs p ps)
  obtain a b c where acc: "acc = (a, b, c)" by (cases acc)
  from Cons.prems have loc: "location g = location p"
    and sc: "list_all (\<lambda>r. score r \<noteq> None) (annotated_regions p)"
    and rest: "\<forall>(g, p)\<in>set (zip gs ps). location g = location p
           \<and> list_all (\<lambda>r. score r \<noteq> None) (annotated_regions p)
           \<and> (\<exists>pairs. scored_pairs (annotated_regions p) = Inr pairs
                 \<and> d (location p) = Some (sorted_reverse snd pairs))"
    by simp_all
  from Cons.prems obtain pairs where pairs: "scored_pairs (annotated_regions p) = Inr pairs"
    and look: "d (location p) = Some (sorted_reverse snd pairs)" by auto
  from naive_pred_boxes_total [OF sc] obtain np where
    np: "naive_pred_boxes thr (annotated_regions p) = Inr np" by blast
  show ?case
    unfolding acc
    by (simp add: np loc look evaluate_image_presorted [OF pairs] Cons.IH [OF rest]
          cong: sum.case_cong)
qed

lemma sweeps_aligned:
  assumes "\<And>thr acc. naive_totals thr J pairs acc = pr_totals thr J d gs acc"
  shows "naive_sweep J pairs ths = pr_sweep J d gs ths"
  by (induction ths) (simp_all add: assms cong: sum.case_cong)

lemma pr_sweep_thresholds:
  "pr_sweep J d gs ths = Inr rs \<Longrightarrow> map threshold rs = ths"
proof (induction ths arbitrary: rs)
  case Nil
  then show ?case by simp
next
  case (Cons t ths)
  from Cons.prems obtain tp fp fn rs' where
    "pr_sweep J d gs ths = Inr rs'" "rs = pr_record tp fp fn t # rs'"
    by (auto split: sum.splits)
  with Cons.IH [of rs'] show ?case by (simp add: pr_record_def)
qed

lemma pr_sweep_returns: "\<exists>rs. pr_sweep J d gs ths = Inr rs"
proof (induction ths)
  case Nil
  then show ?case by simp
next
  case (Cons t ths)
  obtain tp fp fn where "pr_totals t J d gs (0, 0, 0) = Inr (tp, fp, fn)"
    using pr_totals_returns by blast
  with Cons show ?case by auto
qed

lemma pr_sweep_append:
  "pr_sweep J d gs (xs @ ys)
     = (case pr_sweep J d gs xs of
          Inl e \<Rightarrow> Inl e
        | Inr rs \<Rightarrow> (case pr_sweep J d gs ys of Inl e \<Rightarrow> Inl e | Inr rs' \<Rightarrow> Inr (rs @ rs')))"
  by (induction xs) (auto split: sum.splits)

lemma pr_sweep_rev:
  "pr_sweep J d gs ths = Inr rs \<Longrightarrow> pr_sweep J d gs (rev ths) = Inr (rev rs)"
proof (induction ths arbitrary: rs)
  case Nil
  then show ?case by simp
next
  case (Cons t ths)
  from Cons.prems obtain tp fp fn rs' where
    tot: "pr_totals t J d gs (0, 0, 0) = Inr (tp, fp, fn)"
    and rest: "pr_sweep J d gs ths = Inr rs'" and rs: "rs = pr_record tp fp fn t # rs'"
    by (auto split: sum.splits)
  from Cons.IH [OF rest] tot rs show ?case
    by (simp add: pr_sweep_append)
qed

lemma filter_key_distinct:
  "distinct (map f ys) \<Longrightarrow> k \<in> set ys \<Longrightarrow> filter (\<lambda>x. f k = f x) ys = [k]"
proof (induction ys)
  case Nil
  then show ?case by simp
next
  case (Cons y ys)
  show ?case
  proof (cases "k = y")
    case True
    with Cons.prems have "\<forall>x\<in>set ys. f k \<noteq> f x" by auto
    then have "filter (\<lambda>x. f k = f x) ys = []" by (simp add: filter_empty_conv)
    with True show ?thesis by simp
  next
    case False
    with Cons.prems have k: "k \<in> set ys" and d: "distinct (map f ys)"
      and fresh: "f y \<notin> f ` set ys" by auto
    from k have "f k \<in> f ` set ys" by (rule imageI)
    with fresh have "f k \<noteq> f y" by auto
    with Cons.IH [OF d k] show ?thesis by simp
  qed
qed

lemma sort_key_rev_distinct:
  assumes "sorted (map f ys)" "distinct (map f ys)"
  shows "sort_key f (rev ys) = ys"
proof (rule properties_for_sort_key)
  show "mset ys = mset (rev ys)" by simp
  show "sorted (map f ys)" by (rule assms(1))
  fix k assume k: "k \<in> set ys"
  have "distinct (map f (rev ys))" using assms(2) by (simp add: rev_map [symmetric])
  from filter_key_distinct [OF this, of k] filter_key_distinct [OF assms(2) k] k
  show "filter (\<lambda>x. f k = f x) ys = filter (\<lambda>x. f k = f x) (rev ys)" by simp
qed

lemma thresholds_sorted_distinct:
  "thresholds N = Inr ths \<Longrightarrow> sorted ths \<and> distinct ths"
proof -
  assume a: "thresholds N = Inr ths"
  then have N: "N \<noteq> 0" and ths: "ths = map (\<lambda>i. real_of_int i / real_of_int N) [0..N]"
    by (auto simp: thresholds_def split: if_splits)
  show ?thesis
  proof (cases "N < 0")
    case True
    then show ?thesis by (simp add: ths)
  next
    case False
    with N have pos: "0 < N" by simp
    have mono: "\<And>i j. i \<le> j \<Longrightarrow> real_of_int i / real_of_int N \<le> real_of_int j / real_of_int N"
      using pos by (simp add: divide_right_mono)
    have "sorted (map (\<lambda>i. real_of_int i / real_of_int N) [0..N])"
      using mono by (simp add: sorted_map sorted_wrt_mono_rel [OF _ sorted_upto])
    moreover have "inj_on (\<lambda>i. real_of_int i / real_of_int N) (set [0..N])"
      using pos by (auto simp: inj_on_def)
    then have "distinct (map (\<lambda>i. real_of_int i / real_of_int N) [0..N])"
      by (simp add: distinct_map)
    ultimately show ?thesis by (simp add: ths)
  qed
qed

lemma sorted_reverse_id_sorted:
  "sorted ths \<Longrightarrow> sorted_reverse id (ths :: real list) = rev ths"
proof -
  assume s: "sorted ths"
  have "sort (rev ths) = ths"
    by (rule properties_for_sort) (simp_all add: s)
  then show ?thesis by (simp add: sorted_reverse_def id_def)
qed

text \<open>
  Where the two documents list the same locations in the same order, no location
  twice, and every prediction region has a score, the two pairings coincide and
  \<open>evaluate_pr\<close> returns what \<open>evaluate_pr_naive\<close> returns: sorting the predictions
  once and filtering per threshold changes nothing.
\<close>

theorem evaluate_pr_equals_naive_when_aligned:
  assumes al: "map location (images predictions) = map location (images annotations)"
    and di: "distinct (map location (images annotations))"
    and sc: "list_all (\<lambda>img. list_all (\<lambda>r. score r \<noteq> None) (annotated_regions img))
               (images predictions)"
  shows "evaluate_pr annotations predictions N J = evaluate_pr_naive annotations predictions N J"
proof (cases "thresholds N")
  case (Inl e)
  then show ?thesis by (simp add: evaluate_pr_def evaluate_pr_naive_def)
next
  case (Inr ths)
  define gs where "gs = images annotations"
  define ps where "ps = images predictions"
  from sorted_predictions_total [OF sc] obtain d where
    d: "sorted_predictions ps Map.empty = Inr d" unfolding ps_def by blast
  from al have len: "length gs = length ps"
    unfolding gs_def ps_def by (metis length_map)
  have dps: "distinct (map location ps)" using al di by (simp add: ps_def)
  have pairwise: "\<forall>(g, p)\<in>set (zip gs ps). location g = location p
           \<and> list_all (\<lambda>r. score r \<noteq> None) (annotated_regions p)
           \<and> (\<exists>pairs. scored_pairs (annotated_regions p) = Inr pairs
                 \<and> d (location p) = Some (sorted_reverse snd pairs))"
  proof (clarify, intro conjI)
    fix g p assume gp: "(g, p) \<in> set (zip gs ps)"
    then obtain i where i: "i < length gs" "i < length ps" "g = gs ! i" "p = ps ! i"
      by (auto simp: set_zip)
    from al i show "location g = location p"
      unfolding gs_def ps_def by (metis nth_map)
    from gp have pin: "p \<in> set ps" by (rule set_zip_rightD)
    with sc show "list_all (\<lambda>r. score r \<noteq> None) (annotated_regions p)"
      by (simp add: ps_def list_all_iff)
    from pin obtain pre post where split: "ps = pre @ p # post" by (auto simp: in_set_conv_decomp)
    with dps have "location p \<notin> location ` set post" by auto
    from sorted_predictions_last [OF d [unfolded split] this]
    show "\<exists>pairs. scored_pairs (annotated_regions p) = Inr pairs
                 \<and> d (location p) = Some (sorted_reverse snd pairs)" .
  qed
  have sweeps: "\<And>ts. naive_sweep J (zip gs ps) ts = pr_sweep J d gs ts"
    by (rule sweeps_aligned) (rule totals_aligned [OF len pairwise])
  from thresholds_sorted_distinct [OF Inr] have sd: "sorted ths" "distinct ths" by simp_all
  obtain rs where rs: "pr_sweep J d gs ths = Inr rs" using pr_sweep_returns by blast
  have key: "map threshold rs = ths" using pr_sweep_thresholds [OF rs] .
  have "sort_key threshold (rev rs) = rs"
    by (rule sort_key_rev_distinct) (simp_all add: key sd)
  with pr_sweep_rev [OF rs] d
  have opt: "evaluate_pr annotations predictions N J = Inr rs"
    by (simp add: evaluate_pr_def Inr sorted_reverse_id_sorted [OF sd(1)]
          gs_def [symmetric] ps_def [symmetric])
  from rs have "evaluate_pr_naive annotations predictions N J = Inr rs"
    by (simp add: evaluate_pr_naive_def Inr sweeps gs_def [symmetric] ps_def [symmetric])
  with opt show ?thesis by simp
qed

text \<open>An instance: one image on each side, two scored predictions.\<close>

theorem evaluate_pr_equals_naive_when_aligned_witness:
  "map location (images \<lparr>images = [\<lparr>location = ''a'', annotated_regions =
        [\<lparr>region = \<lparr>xmin = 0, ymin = 0, xmax = 10, ymax = 10\<rparr>, score = Some 0\<rparr>,
         \<lparr>region = \<lparr>xmin = 50, ymin = 50, xmax = 60, ymax = 60\<rparr>, score = Some 1\<rparr>]\<rparr>]\<rparr>)
     = map location (images \<lparr>images = [\<lparr>location = ''a'', annotated_regions =
        [\<lparr>region = \<lparr>xmin = 0, ymin = 0, xmax = 10, ymax = 10\<rparr>, score = None\<rparr>]\<rparr>]\<rparr>)
   \<and> distinct (map location (images \<lparr>images = [\<lparr>location = ''a'', annotated_regions =
        [\<lparr>region = \<lparr>xmin = 0, ymin = 0, xmax = 10, ymax = 10\<rparr>, score = None\<rparr>]\<rparr>]\<rparr>))
   \<and> list_all (\<lambda>img. list_all (\<lambda>r. score r \<noteq> None) (annotated_regions img))
        (images \<lparr>images = [\<lparr>location = ''a'', annotated_regions =
        [\<lparr>region = \<lparr>xmin = 0, ymin = 0, xmax = 10, ymax = 10\<rparr>, score = Some 0\<rparr>,
         \<lparr>region = \<lparr>xmin = 50, ymin = 50, xmax = 60, ymax = 60\<rparr>, score = Some 1\<rparr>]\<rparr>]\<rparr>)
   \<and> evaluate_pr
        \<lparr>images = [\<lparr>location = ''a'', annotated_regions =
        [\<lparr>region = \<lparr>xmin = 0, ymin = 0, xmax = 10, ymax = 10\<rparr>, score = None\<rparr>]\<rparr>]\<rparr>
        \<lparr>images = [\<lparr>location = ''a'', annotated_regions =
        [\<lparr>region = \<lparr>xmin = 0, ymin = 0, xmax = 10, ymax = 10\<rparr>, score = Some 0\<rparr>,
         \<lparr>region = \<lparr>xmin = 50, ymin = 50, xmax = 60, ymax = 60\<rparr>, score = Some 1\<rparr>]\<rparr>]\<rparr> 2 (1/2)
     = evaluate_pr_naive
        \<lparr>images = [\<lparr>location = ''a'', annotated_regions =
        [\<lparr>region = \<lparr>xmin = 0, ymin = 0, xmax = 10, ymax = 10\<rparr>, score = None\<rparr>]\<rparr>]\<rparr>
        \<lparr>images = [\<lparr>location = ''a'', annotated_regions =
        [\<lparr>region = \<lparr>xmin = 0, ymin = 0, xmax = 10, ymax = 10\<rparr>, score = Some 0\<rparr>,
         \<lparr>region = \<lparr>xmin = 50, ymin = 50, xmax = 60, ymax = 60\<rparr>, score = Some 1\<rparr>]\<rparr>]\<rparr> 2 (1/2)"
proof -
  have al: "map location (images \<lparr>images = [\<lparr>location = ''a'', annotated_regions =
        [\<lparr>region = \<lparr>xmin = 0, ymin = 0, xmax = 10, ymax = 10\<rparr>, score = Some 0\<rparr>,
         \<lparr>region = \<lparr>xmin = 50, ymin = 50, xmax = 60, ymax = 60\<rparr>, score = Some 1\<rparr>]\<rparr>]\<rparr>)
     = map location (images \<lparr>images = [\<lparr>location = ''a'', annotated_regions =
        [\<lparr>region = \<lparr>xmin = 0, ymin = 0, xmax = 10, ymax = 10\<rparr>, score = None\<rparr>]\<rparr>]\<rparr>)"
    by simp
  have di: "distinct (map location (images \<lparr>images = [\<lparr>location = ''a'', annotated_regions =
        [\<lparr>region = \<lparr>xmin = 0, ymin = 0, xmax = 10, ymax = 10\<rparr>, score = None\<rparr>]\<rparr>]\<rparr>))"
    by simp
  have sc: "list_all (\<lambda>img. list_all (\<lambda>r. score r \<noteq> None) (annotated_regions img))
        (images \<lparr>images = [\<lparr>location = ''a'', annotated_regions =
        [\<lparr>region = \<lparr>xmin = 0, ymin = 0, xmax = 10, ymax = 10\<rparr>, score = Some 0\<rparr>,
         \<lparr>region = \<lparr>xmin = 50, ymin = 50, xmax = 60, ymax = 60\<rparr>, score = Some 1\<rparr>]\<rparr>]\<rparr>)"
    by simp
  from evaluate_pr_equals_naive_when_aligned [OF al di sc, of 2 "1/2"] al di sc
  show ?thesis by blast
qed

subsection \<open>What the threshold sweep returns\<close>

lemma sorted_predictions_raises:
  "\<not> list_all (\<lambda>img. list_all (\<lambda>r. score r \<noteq> None) (annotated_regions img)) imgs \<Longrightarrow>
     sorted_predictions imgs m = Inl KeyError"
proof (induction imgs arbitrary: m)
  case Nil
  then show ?case by simp
next
  case (Cons p imgs)
  have sp: "\<And>rs. \<not> list_all (\<lambda>r. score r \<noteq> None) rs \<Longrightarrow> scored_pairs rs = Inl KeyError"
  proof -
    fix rs :: "annotated_region list"
    show "\<not> list_all (\<lambda>r. score r \<noteq> None) rs \<Longrightarrow> scored_pairs rs = Inl KeyError"
      by (induction rs) (auto split: option.splits sum.splits)
  qed
  show ?case
  proof (cases "list_all (\<lambda>r. score r \<noteq> None) (annotated_regions p)")
    case True
    with Cons.prems have rest: "\<not> list_all (\<lambda>img. list_all (\<lambda>r. score r \<noteq> None)
        (annotated_regions img)) imgs" by simp
    from scored_pairs_total [OF True] obtain pairs where
      "scored_pairs (annotated_regions p) = Inr pairs" by blast
    with Cons.IH [OF rest] show ?thesis by simp
  next
    case False
    from sp [OF this] show ?thesis by simp
  qed
qed

lemma paired_none:
  "loc \<notin> location ` set imgs \<Longrightarrow> spec_paired_predictions imgs loc = []"
proof -
  assume "loc \<notin> location ` set imgs"
  then have "filter (\<lambda>p. location p = loc) imgs = []"
    by (auto simp: filter_empty_conv)
  then show ?thesis by (simp add: spec_paired_predictions_def)
qed

lemma paired_last:
  "location p \<notin> location ` set post \<Longrightarrow>
     spec_paired_predictions (pre @ p # post) (location p) = annotated_regions p"
proof -
  assume "location p \<notin> location ` set post"
  then have "\<forall>q\<in>set post. location q \<noteq> location p" by (metis imageI)
  then have "filter (\<lambda>q. location q = location p) post = []"
    by (simp add: filter_empty_conv)
  then have fs: "filter (\<lambda>q. location q = location p) (pre @ p # post)
      = filter (\<lambda>q. location q = location p) pre @ [p]" by simp
  have pick: "(case xs of [] \<Rightarrow> [] | q # qs \<Rightarrow> annotated_regions (last (q # qs)))
      = annotated_regions (last xs)" if "xs \<noteq> []" for xs :: "image list"
    using that by (cases xs) simp_all
  have "spec_paired_predictions (pre @ p # post) (location p)
      = annotated_regions (last (filter (\<lambda>q. location q = location p) pre @ [p]))"
    unfolding spec_paired_predictions_def fs by (rule pick) simp
  then show ?thesis by simp
qed

lemma lookup_is_pairing:
  assumes d: "sorted_predictions imgs Map.empty = Inr d"
  shows "evaluate_image gt
           (map (\<lambda>(b, s). \<lparr>region = b, score = Some s\<rparr>)
              (filter (\<lambda>(b, s). s \<ge> thr) (case d loc of None \<Rightarrow> [] | Some ps \<Rightarrow> ps))) thr J
         = evaluate_image gt (spec_paired_predictions imgs loc) thr J"
proof (cases "loc \<in> location ` set imgs")
  case False
  from sorted_predictions_frame [OF d False] have "d loc = None" by simp
  with paired_none [OF False] show ?thesis by simp
next
  case True
  then have "\<exists>p\<in>set imgs. location p = loc" by auto
  from split_list_last_prop [OF this] obtain pre p post where
    split: "imgs = pre @ p # post" and loc: "location p = loc"
    and none: "\<forall>q\<in>set post. location q \<noteq> loc" by blast
  from none loc have fresh: "location p \<notin> location ` set post" by auto
  from sorted_predictions_last [OF d [unfolded split] fresh] obtain pairs where
    pairs: "scored_pairs (annotated_regions p) = Inr pairs"
    and look: "d (location p) = Some (sorted_reverse snd pairs)" by blast
  from paired_last [OF fresh, of pre] have "spec_paired_predictions imgs loc = annotated_regions p"
    by (simp add: split loc)
  with look loc evaluate_image_presorted [OF pairs, of gt thr J] show ?thesis by simp
qed

lemma pr_totals_is_spec_totals:
  assumes d: "sorted_predictions imgs Map.empty = Inr d"
  shows "pr_totals thr J d gs (a, b, c)
     = (case spec_totals thr J imgs gs of
          Inl e \<Rightarrow> Inl e
        | Inr (x, y, z) \<Rightarrow> Inr (a + x, b + y, c + z))"
proof (induction gs arbitrary: a b c)
  case Nil
  then show ?case by simp
next
  case (Cons g gs)
  show ?case
    by (simp add: lookup_is_pairing [OF d] Cons.IH add.assoc split: sum.splits prod.splits)
qed

lemma pr_sweep_is_spec_curve:
  assumes d: "sorted_predictions imgs Map.empty = Inr d"
  shows "pr_sweep J d gs ths = spec_curve J imgs gs ths"
proof (induction ths)
  case Nil
  then show ?case by simp
next
  case (Cons t ths)
  show ?case
    by (simp add: pr_totals_is_spec_totals [OF d] Cons.IH split: sum.splits prod.splits)
qed

lemma evaluate_pr_is_spec_curve:
  "evaluate_pr annotations predictions N J
     = (case thresholds N of
          Inl e \<Rightarrow> Inl e
        | Inr ths \<Rightarrow>
            if list_all (\<lambda>img. list_all (\<lambda>r. score r \<noteq> None) (annotated_regions img))
                 (images predictions)
            then spec_curve J (images predictions) (images annotations) ths
            else Inl KeyError)"
proof (cases "thresholds N")
  case (Inl e)
  then show ?thesis by (simp add: evaluate_pr_def)
next
  case (Inr ths)
  show ?thesis
  proof (cases "list_all (\<lambda>img. list_all (\<lambda>r. score r \<noteq> None) (annotated_regions img))
                 (images predictions)")
    case False
    from sorted_predictions_raises [OF this] Inr False show ?thesis
      by (simp add: evaluate_pr_def)
  next
    case True
    from sorted_predictions_total [OF True] obtain d where
      d: "sorted_predictions (images predictions) Map.empty = Inr d" by blast
    from thresholds_sorted_distinct [OF Inr] have sd: "sorted ths" "distinct ths" by simp_all
    obtain rs where rs: "pr_sweep J d (images annotations) ths = Inr rs"
      using pr_sweep_returns by blast
    have key: "map threshold rs = ths" using pr_sweep_thresholds [OF rs] .
    have "sort_key threshold (rev rs) = rs"
      by (rule sort_key_rev_distinct) (simp_all add: key sd)
    with pr_sweep_rev [OF rs] d
    have "evaluate_pr annotations predictions N J = Inr rs"
      by (simp add: evaluate_pr_def Inr sorted_reverse_id_sorted [OF sd(1)])
    with rs pr_sweep_is_spec_curve [OF d, of J "images annotations" ths] Inr True
    show ?thesis by simp
  qed
qed

text \<open>
  Claim C5, as far as it holds, for \<open>evaluate_pr\<close>. For \<open>N = 0\<close> the call raises
  \<open>ZeroDivisionError\<close>, and with a prediction region that has no score it raises
  \<open>KeyError\<close>. Otherwise it returns, for the thresholds in ascending order, the
  records of the totals that sum, over the ground-truth images, the counts of
  \<open>evaluate_image\<close> on the image and the predictions paired with it by location
  (\<open>spec_curve\<close>). A ground-truth image whose location no prediction image has is
  paired with no predictions and adds its box count to \<open>FN\<close> and nothing to \<open>TP\<close>
  and \<open>FP\<close>; otherwise it is paired with the last prediction image of its
  location. Prediction images whose location no ground-truth image has can be
  dropped from the document without changing the result.
\<close>

theorem evaluate_pr_pairs_by_location:
  "evaluate_pr annotations predictions N J
     = (case thresholds N of
          Inl e \<Rightarrow> Inl e
        | Inr ths \<Rightarrow>
            if list_all (\<lambda>img. list_all (\<lambda>r. score r \<noteq> None) (annotated_regions img))
                 (images predictions)
            then spec_curve J (images predictions) (images annotations) ths
            else Inl KeyError)
   \<and> (location g \<notin> location ` set (images predictions) \<longrightarrow>
        spec_paired_predictions (images predictions) (location g) = []
        \<and> evaluate_image (annotated_regions g) [] thr J
            = Inr (0, int (length (annotated_regions g)), 0))
   \<and> (images predictions = pre @ p # post \<and> location p \<notin> location ` set post \<longrightarrow>
        spec_paired_predictions (images predictions) (location p) = annotated_regions p)
   \<and> (list_all (\<lambda>img. list_all (\<lambda>r. score r \<noteq> None) (annotated_regions img))
          (images predictions) \<longrightarrow>
        evaluate_pr annotations predictions N J
          = evaluate_pr annotations
              \<lparr>images = filter (\<lambda>q. location q \<in> location ` set (images annotations))
                          (images predictions)\<rparr> N J)"
proof (intro conjI impI)
  show "evaluate_pr annotations predictions N J
     = (case thresholds N of
          Inl e \<Rightarrow> Inl e
        | Inr ths \<Rightarrow>
            if list_all (\<lambda>img. list_all (\<lambda>r. score r \<noteq> None) (annotated_regions img))
                 (images predictions)
            then spec_curve J (images predictions) (images annotations) ths
            else Inl KeyError)"
    by (rule evaluate_pr_is_spec_curve)
next
  assume "location g \<notin> location ` set (images predictions)"
  then show "spec_paired_predictions (images predictions) (location g) = []"
    by (rule paired_none)
next
  show "evaluate_image (annotated_regions g) [] thr J
      = Inr (0, int (length (annotated_regions g)), 0)"
    by (rule evaluate_image_no_predictions)
next
  assume "images predictions = pre @ p # post \<and> location p \<notin> location ` set post"
  then show "spec_paired_predictions (images predictions) (location p) = annotated_regions p"
    using paired_last [of p post pre] by simp
next
  assume sc: "list_all (\<lambda>img. list_all (\<lambda>r. score r \<noteq> None) (annotated_regions img))
          (images predictions)"
  from sorted_predictions_total [OF sc] obtain d where
    d: "sorted_predictions (images predictions) Map.empty = Inr d" by blast
  define L where "L = location ` set (images annotations)"
  have "\<forall>loc\<in>L. (Map.empty :: string \<rightharpoonup> (box \<times> real) list) loc = Map.empty loc" by simp
  from sorted_predictions_filter [OF d this] obtain d' where
    d': "sorted_predictions (filter (\<lambda>q. location q \<in> L) (images predictions)) Map.empty = Inr d'"
    and same: "\<forall>loc\<in>L. d' loc = d loc" by blast
  have "\<forall>g\<in>set (images annotations). d (location g) = d' (location g)"
    using same by (simp add: L_def)
  from pr_sweep_cong [OF this] d d'
  show "evaluate_pr annotations predictions N J
      = evaluate_pr annotations
          \<lparr>images = filter (\<lambda>q. location q \<in> location ` set (images annotations))
                      (images predictions)\<rparr> N J"
    by (simp add: evaluate_pr_def L_def cong: sum.case_cong)
qed

text \<open>
  An instance: prediction images \<open>a\<close> and \<open>b\<close>, ground-truth images \<open>a\<close> and \<open>c\<close>,
  thresholds \<open>0\<close> and \<open>1\<close>. Image \<open>a\<close> gives one true positive, image \<open>c\<close> one false
  negative, image \<open>b\<close> nothing: precision \<open>1\<close>, recall \<open>1/2\<close>.
\<close>

theorem evaluate_pr_pairs_by_location_witness:
  "list_all (\<lambda>img. list_all (\<lambda>r. score r \<noteq> None) (annotated_regions img))
     (images \<lparr>images = [\<lparr>location = ''a'', annotated_regions =
        [\<lparr>region = \<lparr>xmin = 0, ymin = 0, xmax = 10, ymax = 10\<rparr>, score = Some 1\<rparr>]\<rparr>,
          \<lparr>location = ''b'', annotated_regions =
        [\<lparr>region = \<lparr>xmin = 20, ymin = 0, xmax = 30, ymax = 10\<rparr>, score = Some 1\<rparr>]\<rparr>]\<rparr>)
   \<and> evaluate_pr
        \<lparr>images = [\<lparr>location = ''a'', annotated_regions =
        [\<lparr>region = \<lparr>xmin = 0, ymin = 0, xmax = 10, ymax = 10\<rparr>, score = None\<rparr>]\<rparr>,
          \<lparr>location = ''c'', annotated_regions =
        [\<lparr>region = \<lparr>xmin = 5, ymin = 5, xmax = 8, ymax = 8\<rparr>, score = None\<rparr>]\<rparr>]\<rparr>
        \<lparr>images = [\<lparr>location = ''a'', annotated_regions =
        [\<lparr>region = \<lparr>xmin = 0, ymin = 0, xmax = 10, ymax = 10\<rparr>, score = Some 1\<rparr>]\<rparr>,
          \<lparr>location = ''b'', annotated_regions =
        [\<lparr>region = \<lparr>xmin = 20, ymin = 0, xmax = 30, ymax = 10\<rparr>, score = Some 1\<rparr>]\<rparr>]\<rparr> 1 (1/2)
     = Inr [\<lparr>precision = 1, recall = 1/2, threshold = 0\<rparr>,
          \<lparr>precision = 1, recall = 1/2, threshold = 1\<rparr>]
   \<and> spec_paired_predictions (images \<lparr>images = [\<lparr>location = ''a'', annotated_regions =
        [\<lparr>region = \<lparr>xmin = 0, ymin = 0, xmax = 10, ymax = 10\<rparr>, score = Some 1\<rparr>]\<rparr>,
          \<lparr>location = ''b'', annotated_regions =
        [\<lparr>region = \<lparr>xmin = 20, ymin = 0, xmax = 30, ymax = 10\<rparr>, score = Some 1\<rparr>]\<rparr>]\<rparr>) (location \<lparr>location = ''c'', annotated_regions =
        [\<lparr>region = \<lparr>xmin = 5, ymin = 5, xmax = 8, ymax = 8\<rparr>, score = None\<rparr>]\<rparr>) = []
   \<and> evaluate_image (annotated_regions \<lparr>location = ''c'', annotated_regions =
        [\<lparr>region = \<lparr>xmin = 5, ymin = 5, xmax = 8, ymax = 8\<rparr>, score = None\<rparr>]\<rparr>) [] 0 (1/2) = Inr (0, 1, 0)
   \<and> spec_paired_predictions (images \<lparr>images = [\<lparr>location = ''a'', annotated_regions =
        [\<lparr>region = \<lparr>xmin = 0, ymin = 0, xmax = 10, ymax = 10\<rparr>, score = Some 1\<rparr>]\<rparr>,
          \<lparr>location = ''b'', annotated_regions =
        [\<lparr>region = \<lparr>xmin = 20, ymin = 0, xmax = 30, ymax = 10\<rparr>, score = Some 1\<rparr>]\<rparr>]\<rparr>) (location \<lparr>location = ''a'', annotated_regions =
        [\<lparr>region = \<lparr>xmin = 0, ymin = 0, xmax = 10, ymax = 10\<rparr>, score = Some 1\<rparr>]\<rparr>)
     = annotated_regions \<lparr>location = ''a'', annotated_regions =
        [\<lparr>region = \<lparr>xmin = 0, ymin = 0, xmax = 10, ymax = 10\<rparr>, score = Some 1\<rparr>]\<rparr>
   \<and> evaluate_pr
        \<lparr>images = [\<lparr>location = ''a'', annotated_regions =
        [\<lparr>region = \<lparr>xmin = 0, ymin = 0, xmax = 10, ymax = 10\<rparr>, score = None\<rparr>]\<rparr>,
          \<lparr>location = ''c'', annotated_regions =
        [\<lparr>region = \<lparr>xmin = 5, ymin = 5, xmax = 8, ymax = 8\<rparr>, score = None\<rparr>]\<rparr>]\<rparr>
        \<lparr>images = [\<lparr>location = ''a'', annotated_regions =
        [\<lparr>region = \<lparr>xmin = 0, ymin = 0, xmax = 10, ymax = 10\<rparr>, score = Some 1\<rparr>]\<rparr>,
          \<lparr>location = ''b'', annotated_regions =
        [\<lparr>region = \<lparr>xmin = 20, ymin = 0, xmax = 30, ymax = 10\<rparr>, score = Some 1\<rparr>]\<rparr>]\<rparr> 1 (1/2)
     = evaluate_pr
        \<lparr>images = [\<lparr>location = ''a'', annotated_regions =
        [\<lparr>region = \<lparr>xmin = 0, ymin = 0, xmax = 10, ymax = 10\<rparr>, score = None\<rparr>]\<rparr>,
          \<lparr>location = ''c'', annotated_regions =
        [\<lparr>region = \<lparr>xmin = 5, ymin = 5, xmax = 8, ymax = 8\<rparr>, score = None\<rparr>]\<rparr>]\<rparr>
        \<lparr>images = [\<lparr>location = ''a'', annotated_regions =
        [\<lparr>region = \<lparr>xmin = 0, ymin = 0, xmax = 10, ymax = 10\<rparr>, score = Some 1\<rparr>]\<rparr>]\<rparr> 1 (1/2)"
proof -
  have sc: "list_all (\<lambda>img. list_all (\<lambda>r. score r \<noteq> None) (annotated_regions img))
     (images \<lparr>images = [\<lparr>location = ''a'', annotated_regions =
        [\<lparr>region = \<lparr>xmin = 0, ymin = 0, xmax = 10, ymax = 10\<rparr>, score = Some 1\<rparr>]\<rparr>,
          \<lparr>location = ''b'', annotated_regions =
        [\<lparr>region = \<lparr>xmin = 20, ymin = 0, xmax = 30, ymax = 10\<rparr>, score = Some 1\<rparr>]\<rparr>]\<rparr>)"
    by simp
  have only: "location \<lparr>location = ''c'', annotated_regions =
        [\<lparr>region = \<lparr>xmin = 5, ymin = 5, xmax = 8, ymax = 8\<rparr>, score = None\<rparr>]\<rparr>
      \<notin> location ` set (images \<lparr>images = [\<lparr>location = ''a'', annotated_regions =
        [\<lparr>region = \<lparr>xmin = 0, ymin = 0, xmax = 10, ymax = 10\<rparr>, score = Some 1\<rparr>]\<rparr>,
          \<lparr>location = ''b'', annotated_regions =
        [\<lparr>region = \<lparr>xmin = 20, ymin = 0, xmax = 30, ymax = 10\<rparr>, score = Some 1\<rparr>]\<rparr>]\<rparr>)"
    by simp
  have split: "images \<lparr>images = [\<lparr>location = ''a'', annotated_regions =
        [\<lparr>region = \<lparr>xmin = 0, ymin = 0, xmax = 10, ymax = 10\<rparr>, score = Some 1\<rparr>]\<rparr>,
          \<lparr>location = ''b'', annotated_regions =
        [\<lparr>region = \<lparr>xmin = 20, ymin = 0, xmax = 30, ymax = 10\<rparr>, score = Some 1\<rparr>]\<rparr>]\<rparr>
     = [] @ \<lparr>location = ''a'', annotated_regions =
        [\<lparr>region = \<lparr>xmin = 0, ymin = 0, xmax = 10, ymax = 10\<rparr>, score = Some 1\<rparr>]\<rparr>
          # [\<lparr>location = ''b'', annotated_regions =
        [\<lparr>region = \<lparr>xmin = 20, ymin = 0, xmax = 30, ymax = 10\<rparr>, score = Some 1\<rparr>]\<rparr>]
     \<and> location \<lparr>location = ''a'', annotated_regions =
        [\<lparr>region = \<lparr>xmin = 0, ymin = 0, xmax = 10, ymax = 10\<rparr>, score = Some 1\<rparr>]\<rparr>
        \<notin> location ` set [\<lparr>location = ''b'', annotated_regions =
        [\<lparr>region = \<lparr>xmin = 20, ymin = 0, xmax = 30, ymax = 10\<rparr>, score = Some 1\<rparr>]\<rparr>]"
    by simp
  have curve: "(case thresholds 1 of
          Inl e \<Rightarrow> Inl e
        | Inr ths \<Rightarrow>
            if list_all (\<lambda>img. list_all (\<lambda>r. score r \<noteq> None) (annotated_regions img))
                 (images \<lparr>images = [\<lparr>location = ''a'', annotated_regions =
        [\<lparr>region = \<lparr>xmin = 0, ymin = 0, xmax = 10, ymax = 10\<rparr>, score = Some 1\<rparr>]\<rparr>,
          \<lparr>location = ''b'', annotated_regions =
        [\<lparr>region = \<lparr>xmin = 20, ymin = 0, xmax = 30, ymax = 10\<rparr>, score = Some 1\<rparr>]\<rparr>]\<rparr>)
            then spec_curve (1/2) (images \<lparr>images = [\<lparr>location = ''a'', annotated_regions =
        [\<lparr>region = \<lparr>xmin = 0, ymin = 0, xmax = 10, ymax = 10\<rparr>, score = Some 1\<rparr>]\<rparr>,
          \<lparr>location = ''b'', annotated_regions =
        [\<lparr>region = \<lparr>xmin = 20, ymin = 0, xmax = 30, ymax = 10\<rparr>, score = Some 1\<rparr>]\<rparr>]\<rparr>)
                   (images \<lparr>images = [\<lparr>location = ''a'', annotated_regions =
        [\<lparr>region = \<lparr>xmin = 0, ymin = 0, xmax = 10, ymax = 10\<rparr>, score = None\<rparr>]\<rparr>,
          \<lparr>location = ''c'', annotated_regions =
        [\<lparr>region = \<lparr>xmin = 5, ymin = 5, xmax = 8, ymax = 8\<rparr>, score = None\<rparr>]\<rparr>]\<rparr>) ths
            else Inl KeyError)
      = Inr [\<lparr>precision = 1, recall = 1/2, threshold = 0\<rparr>,
          \<lparr>precision = 1, recall = 1/2, threshold = 1\<rparr>]"
    by code_simp
  have keep: "filter (\<lambda>q. location q \<in> location ` set (images \<lparr>images = [\<lparr>location = ''a'', annotated_regions =
        [\<lparr>region = \<lparr>xmin = 0, ymin = 0, xmax = 10, ymax = 10\<rparr>, score = None\<rparr>]\<rparr>,
          \<lparr>location = ''c'', annotated_regions =
        [\<lparr>region = \<lparr>xmin = 5, ymin = 5, xmax = 8, ymax = 8\<rparr>, score = None\<rparr>]\<rparr>]\<rparr>))
      (images \<lparr>images = [\<lparr>location = ''a'', annotated_regions =
        [\<lparr>region = \<lparr>xmin = 0, ymin = 0, xmax = 10, ymax = 10\<rparr>, score = Some 1\<rparr>]\<rparr>,
          \<lparr>location = ''b'', annotated_regions =
        [\<lparr>region = \<lparr>xmin = 20, ymin = 0, xmax = 30, ymax = 10\<rparr>, score = Some 1\<rparr>]\<rparr>]\<rparr>)
     = [\<lparr>location = ''a'', annotated_regions =
        [\<lparr>region = \<lparr>xmin = 0, ymin = 0, xmax = 10, ymax = 10\<rparr>, score = Some 1\<rparr>]\<rparr>]"
    by simp
  note inst = evaluate_pr_pairs_by_location [of
      "\<lparr>images = [\<lparr>location = ''a'', annotated_regions =
        [\<lparr>region = \<lparr>xmin = 0, ymin = 0, xmax = 10, ymax = 10\<rparr>, score = None\<rparr>]\<rparr>,
          \<lparr>location = ''c'', annotated_regions =
        [\<lparr>region = \<lparr>xmin = 5, ymin = 5, xmax = 8, ymax = 8\<rparr>, score = None\<rparr>]\<rparr>]\<rparr>"
      "\<lparr>images = [\<lparr>location = ''a'', annotated_regions =
        [\<lparr>region = \<lparr>xmin = 0, ymin = 0, xmax = 10, ymax = 10\<rparr>, score = Some 1\<rparr>]\<rparr>,
          \<lparr>location = ''b'', annotated_regions =
        [\<lparr>region = \<lparr>xmin = 20, ymin = 0, xmax = 30, ymax = 10\<rparr>, score = Some 1\<rparr>]\<rparr>]\<rparr>" 1 "1/2"
      "\<lparr>location = ''c'', annotated_regions =
        [\<lparr>region = \<lparr>xmin = 5, ymin = 5, xmax = 8, ymax = 8\<rparr>, score = None\<rparr>]\<rparr>" 0 "[]"
      "\<lparr>location = ''a'', annotated_regions =
        [\<lparr>region = \<lparr>xmin = 0, ymin = 0, xmax = 10, ymax = 10\<rparr>, score = Some 1\<rparr>]\<rparr>"
      "[\<lparr>location = ''b'', annotated_regions =
        [\<lparr>region = \<lparr>xmin = 20, ymin = 0, xmax = 30, ymax = 10\<rparr>, score = Some 1\<rparr>]\<rparr>]"]
  from inst curve have one: "evaluate_pr
        \<lparr>images = [\<lparr>location = ''a'', annotated_regions =
        [\<lparr>region = \<lparr>xmin = 0, ymin = 0, xmax = 10, ymax = 10\<rparr>, score = None\<rparr>]\<rparr>,
          \<lparr>location = ''c'', annotated_regions =
        [\<lparr>region = \<lparr>xmin = 5, ymin = 5, xmax = 8, ymax = 8\<rparr>, score = None\<rparr>]\<rparr>]\<rparr>
        \<lparr>images = [\<lparr>location = ''a'', annotated_regions =
        [\<lparr>region = \<lparr>xmin = 0, ymin = 0, xmax = 10, ymax = 10\<rparr>, score = Some 1\<rparr>]\<rparr>,
          \<lparr>location = ''b'', annotated_regions =
        [\<lparr>region = \<lparr>xmin = 20, ymin = 0, xmax = 30, ymax = 10\<rparr>, score = Some 1\<rparr>]\<rparr>]\<rparr> 1 (1/2)
     = Inr [\<lparr>precision = 1, recall = 1/2, threshold = 0\<rparr>,
          \<lparr>precision = 1, recall = 1/2, threshold = 1\<rparr>]"
    by (simp only:)
  from inst only have two: "spec_paired_predictions (images \<lparr>images = [\<lparr>location = ''a'', annotated_regions =
        [\<lparr>region = \<lparr>xmin = 0, ymin = 0, xmax = 10, ymax = 10\<rparr>, score = Some 1\<rparr>]\<rparr>,
          \<lparr>location = ''b'', annotated_regions =
        [\<lparr>region = \<lparr>xmin = 20, ymin = 0, xmax = 30, ymax = 10\<rparr>, score = Some 1\<rparr>]\<rparr>]\<rparr>) (location \<lparr>location = ''c'', annotated_regions =
        [\<lparr>region = \<lparr>xmin = 5, ymin = 5, xmax = 8, ymax = 8\<rparr>, score = None\<rparr>]\<rparr>) = []
     \<and> evaluate_image (annotated_regions \<lparr>location = ''c'', annotated_regions =
        [\<lparr>region = \<lparr>xmin = 5, ymin = 5, xmax = 8, ymax = 8\<rparr>, score = None\<rparr>]\<rparr>) [] 0 (1/2) = Inr (0, 1, 0)"
    by simp
  from inst split have three: "spec_paired_predictions (images \<lparr>images = [\<lparr>location = ''a'', annotated_regions =
        [\<lparr>region = \<lparr>xmin = 0, ymin = 0, xmax = 10, ymax = 10\<rparr>, score = Some 1\<rparr>]\<rparr>,
          \<lparr>location = ''b'', annotated_regions =
        [\<lparr>region = \<lparr>xmin = 20, ymin = 0, xmax = 30, ymax = 10\<rparr>, score = Some 1\<rparr>]\<rparr>]\<rparr>) (location \<lparr>location = ''a'', annotated_regions =
        [\<lparr>region = \<lparr>xmin = 0, ymin = 0, xmax = 10, ymax = 10\<rparr>, score = Some 1\<rparr>]\<rparr>)
     = annotated_regions \<lparr>location = ''a'', annotated_regions =
        [\<lparr>region = \<lparr>xmin = 0, ymin = 0, xmax = 10, ymax = 10\<rparr>, score = Some 1\<rparr>]\<rparr>"
    by blast
  from inst sc have "evaluate_pr
        \<lparr>images = [\<lparr>location = ''a'', annotated_regions =
        [\<lparr>region = \<lparr>xmin = 0, ymin = 0, xmax = 10, ymax = 10\<rparr>, score = None\<rparr>]\<rparr>,
          \<lparr>location = ''c'', annotated_regions =
        [\<lparr>region = \<lparr>xmin = 5, ymin = 5, xmax = 8, ymax = 8\<rparr>, score = None\<rparr>]\<rparr>]\<rparr>
        \<lparr>images = [\<lparr>location = ''a'', annotated_regions =
        [\<lparr>region = \<lparr>xmin = 0, ymin = 0, xmax = 10, ymax = 10\<rparr>, score = Some 1\<rparr>]\<rparr>,
          \<lparr>location = ''b'', annotated_regions =
        [\<lparr>region = \<lparr>xmin = 20, ymin = 0, xmax = 30, ymax = 10\<rparr>, score = Some 1\<rparr>]\<rparr>]\<rparr> 1 (1/2)
     = evaluate_pr
        \<lparr>images = [\<lparr>location = ''a'', annotated_regions =
        [\<lparr>region = \<lparr>xmin = 0, ymin = 0, xmax = 10, ymax = 10\<rparr>, score = None\<rparr>]\<rparr>,
          \<lparr>location = ''c'', annotated_regions =
        [\<lparr>region = \<lparr>xmin = 5, ymin = 5, xmax = 8, ymax = 8\<rparr>, score = None\<rparr>]\<rparr>]\<rparr>
        \<lparr>images = filter (\<lambda>q. location q \<in> location ` set (images \<lparr>images = [\<lparr>location = ''a'', annotated_regions =
        [\<lparr>region = \<lparr>xmin = 0, ymin = 0, xmax = 10, ymax = 10\<rparr>, score = None\<rparr>]\<rparr>,
          \<lparr>location = ''c'', annotated_regions =
        [\<lparr>region = \<lparr>xmin = 5, ymin = 5, xmax = 8, ymax = 8\<rparr>, score = None\<rparr>]\<rparr>]\<rparr>))
      (images \<lparr>images = [\<lparr>location = ''a'', annotated_regions =
        [\<lparr>region = \<lparr>xmin = 0, ymin = 0, xmax = 10, ymax = 10\<rparr>, score = Some 1\<rparr>]\<rparr>,
          \<lparr>location = ''b'', annotated_regions =
        [\<lparr>region = \<lparr>xmin = 20, ymin = 0, xmax = 30, ymax = 10\<rparr>, score = Some 1\<rparr>]\<rparr>]\<rparr>)\<rparr> 1 (1/2)"
    by blast
  then have four: "evaluate_pr
        \<lparr>images = [\<lparr>location = ''a'', annotated_regions =
        [\<lparr>region = \<lparr>xmin = 0, ymin = 0, xmax = 10, ymax = 10\<rparr>, score = None\<rparr>]\<rparr>,
          \<lparr>location = ''c'', annotated_regions =
        [\<lparr>region = \<lparr>xmin = 5, ymin = 5, xmax = 8, ymax = 8\<rparr>, score = None\<rparr>]\<rparr>]\<rparr>
        \<lparr>images = [\<lparr>location = ''a'', annotated_regions =
        [\<lparr>region = \<lparr>xmin = 0, ymin = 0, xmax = 10, ymax = 10\<rparr>, score = Some 1\<rparr>]\<rparr>,
          \<lparr>location = ''b'', annotated_regions =
        [\<lparr>region = \<lparr>xmin = 20, ymin = 0, xmax = 30, ymax = 10\<rparr>, score = Some 1\<rparr>]\<rparr>]\<rparr> 1 (1/2)
     = evaluate_pr
        \<lparr>images = [\<lparr>location = ''a'', annotated_regions =
        [\<lparr>region = \<lparr>xmin = 0, ymin = 0, xmax = 10, ymax = 10\<rparr>, score = None\<rparr>]\<rparr>,
          \<lparr>location = ''c'', annotated_regions =
        [\<lparr>region = \<lparr>xmin = 5, ymin = 5, xmax = 8, ymax = 8\<rparr>, score = None\<rparr>]\<rparr>]\<rparr>
        \<lparr>images = [\<lparr>location = ''a'', annotated_regions =
        [\<lparr>region = \<lparr>xmin = 0, ymin = 0, xmax = 10, ymax = 10\<rparr>, score = Some 1\<rparr>]\<rparr>]\<rparr> 1 (1/2)"
    by (simp only: keep)
  from sc one two three four show ?thesis by blast
qed

text \<open>
  Claim C5 as stated fails. The prediction document has an image \<open>b\<close> with one box
  of score \<open>1\<close> that the ground truth does not have. Neither sweep counts that box:
  both return precision \<open>1\<close>, where a false positive would give \<open>1/2\<close>.
\<close>

theorem evaluate_pr_prediction_only_image_ignored:
  "evaluate_pr
     \<lparr>images = [\<lparr>location = ''a'', annotated_regions =
        [\<lparr>region = \<lparr>xmin = 0, ymin = 0, xmax = 10, ymax = 10\<rparr>, score = None\<rparr>]\<rparr>]\<rparr>
     \<lparr>images = [\<lparr>location = ''a'', annotated_regions =
        [\<lparr>region = \<lparr>xmin = 0, ymin = 0, xmax = 10, ymax = 10\<rparr>, score = Some 1\<rparr>]\<rparr>,
       \<lparr>location = ''b'', annotated_regions =
        [\<lparr>region = \<lparr>xmin = 20, ymin = 0, xmax = 30, ymax = 10\<rparr>, score = Some 1\<rparr>]\<rparr>]\<rparr> 1 (1/2)
   = Inr [\<lparr>precision = 1, recall = 1, threshold = 0\<rparr>,
          \<lparr>precision = 1, recall = 1, threshold = 1\<rparr>]
   \<and> evaluate_pr_naive
     \<lparr>images = [\<lparr>location = ''a'', annotated_regions =
        [\<lparr>region = \<lparr>xmin = 0, ymin = 0, xmax = 10, ymax = 10\<rparr>, score = None\<rparr>]\<rparr>]\<rparr>
     \<lparr>images = [\<lparr>location = ''a'', annotated_regions =
        [\<lparr>region = \<lparr>xmin = 0, ymin = 0, xmax = 10, ymax = 10\<rparr>, score = Some 1\<rparr>]\<rparr>,
       \<lparr>location = ''b'', annotated_regions =
        [\<lparr>region = \<lparr>xmin = 20, ymin = 0, xmax = 30, ymax = 10\<rparr>, score = Some 1\<rparr>]\<rparr>]\<rparr> 1 (1/2)
   = Inr [\<lparr>precision = 1, recall = 1, threshold = 0\<rparr>,
          \<lparr>precision = 1, recall = 1, threshold = 1\<rparr>]"
  by code_simp

end
